theory Spec2Isabelle
  imports Main "HOL-Library.AList" "HOL-Library.Char_ord" "HOL-Library.List_Lexorder"
    "HOL-Library.Multiset"
begin

text \<open>
  The command line tool \<open>merge-translations\<close> is a single TypeScript file, present in
  several variants:
  \<^item> \<open>src/unnamed/part_000\<close>, with the options \<open>ignoreErrors\<close>, \<open>sort\<close> and
    \<open>mergeContext\<close>: \<open>main\<close> below;
  \<^item> the first file of \<open>src/unnamed/part_001\<close>, which adds \<open>md5Check\<close> and has the
    same loop: \<open>main_md5\<close>;
  \<^item> \<open>src/src/index.ts\<close>, without options: \<open>main_index\<close>;
  \<^item> the second file of \<open>src/unnamed/part_001\<close>, with \<open>ignoreErrors\<close> only, whose
    \<open>main\<close> reads \<open>program\<close> before the declaration that initialises it and so
    rejects before it merges anything; it is not modelled.
\<close>

section \<open>Data model\<close>

text \<open>
  The interfaces of the source. \<open>TranslationItem\<close> is the interface of that name
  (\<open>TranslatableItem\<close> in \<open>src/src/index.ts\<close>): \<open>key\<close> and \<open>value\<close> are strings;
  \<open>context\<close> is \<open>Some c\<close> for a string \<open>c\<close> and \<open>None\<close> when the parsed object has
  no such property (reading it gives \<open>undefined\<close>), since the program tests the
  property for truthiness and never requires it. An item is the object that
  \<open>JSON.parse\<close> made: storing it in \<open>allItems\<close> stores a reference, and the one
  assignment to a stored item, \<open>allItems[key].context = item.context\<close>, is modelled
  by replacing the stored record.
\<close>

record TranslationItem =
  key :: string
  "value" :: string
  "context" :: "string option"

record TranslationObject =
  language :: string
  "translations" :: "TranslationItem list"

text \<open>
  What \<open>JSON.parse\<close> can hand to \<open>main\<close>, as far as \<open>main\<close> looks at it:
  the value of the \<open>translations\<close> property (\<open>Undefined\<close> when the object has none),
  and the parsed value around it. An array holds items of the interface. Of a number
  only its being zero is looked at; it is represented by an integer. A non-empty string
  in the place of the array (which \<open>for ... of\<close> would walk character by character)
  and array elements that are no items are outside this model.
\<close>

datatype jsvalue =
    Undefined
  | Null
  | Boolean bool
  | Number int
  | EmptyString
  | Object
  | Array "TranslationItem list"

datatype parsed =
    JSON_null
  | JSON_scalar
  | JSON_array
  | JSON_object jsvalue

text \<open>
  The collaborators of the program: \<open>asyncGlob\<close>, \<open>fs.readFile\<close> followed by
  \<open>buffer.toString()\<close>, \<open>JSON.parse\<close>, \<open>String.prototype.localeCompare\<close> and the
  \<open>md5\<close> package. A failing read or parse yields \<open>Inl\<close> of the \<open>message\<close> of the
  error it raises.
\<close>

record env =
  asyncGlob :: "string \<Rightarrow> string list"
  readFile :: "string \<Rightarrow> string + string"
  JSON_parse :: "string \<Rightarrow> string + parsed"
  localeCompare :: "string \<Rightarrow> string \<Rightarrow> int"
  md5 :: "string \<Rightarrow> string"

text \<open>The options \<open>commander\<close> returns, and the remaining arguments.\<close>

record program =
  ignoreErrors :: bool
  sort_opt :: bool
  mergeContext :: bool
  md5Check :: bool
  args :: "string list"

text \<open>
  What an \<open>async\<close> function can reject with: an \<open>Error\<close> the program throws itself,
  with its message, or the \<open>TypeError\<close> of the runtime. A computation returns the lines
  it wrote to \<open>stderr\<close> together with its result.
\<close>

datatype error = Error string | TypeError

type_synonym 'a io = "string list \<times> (error + 'a)"

section \<open>The plain object \<open>allItems\<close>\<close>

text \<open>
  \<open>allItems\<close> is created as \<open>{}\<close>: its own properties in creation order, and behind
  them the properties of \<open>Object.prototype\<close>. \<open>allItems[key]\<close> reads an own property
  or, when there is none, an inherited one; each inherited value is a function or (for
  \<open>__proto__\<close>) the prototype object: truthy, and with no \<open>value\<close> and no
  \<open>context\<close>. An assignment \<open>allItems[key] = item\<close> is only reached when
  \<open>allItems[key]\<close> is falsy, that is for a name that is neither own nor inherited,
  and creates the own property (\<open>AList.update\<close> appends it).
\<close>

type_synonym allItems = "(string \<times> TranslationItem) list"

definition Object_prototype :: "string list" where
  "Object_prototype =
     [''constructor'', ''__defineGetter__'', ''__defineSetter__'', ''hasOwnProperty'',
      ''__lookupGetter__'', ''__lookupSetter__'', ''isPrototypeOf'',
      ''propertyIsEnumerable'', ''toString'', ''valueOf'', ''__proto__'',
      ''toLocaleString'']"

datatype property = Missing | Own TranslationItem | Inherited

definition get :: "allItems \<Rightarrow> string \<Rightarrow> property" where
  "get allItems k =
     (case map_of allItems k of
        Some item \<Rightarrow> Own item
      | None \<Rightarrow> if k \<in> set Object_prototype then Inherited else Missing)"

text \<open>
  \<open>Object.values\<close> lists the values of the own properties in the order of
  \<open>[[OwnPropertyKeys]]\<close>: first the properties whose name is an array index (the
  canonical decimal form of an integer below \<open>2^32 - 1\<close>) in ascending numeric order,
  then the others in creation order.
\<close>

definition is_digit :: "char \<Rightarrow> bool" where
  "is_digit c = (c \<in> set ''0123456789'')"

definition decimal :: "string \<Rightarrow> int" where
  "decimal s = foldl (\<lambda>n c. 10 * n + (of_char c - 48)) 0 s"

definition is_array_index :: "string \<Rightarrow> bool" where
  "is_array_index s =
     (s \<noteq> [] \<and> list_all is_digit s \<and> (s = ''0'' \<or> hd s \<noteq> CHR ''0'') \<and>
      decimal s < 4294967295)"

definition Object_values :: "allItems \<Rightarrow> TranslationItem list" where
  "Object_values allItems =
     map snd
       (sort_key (\<lambda>p. decimal (fst p)) (filter (\<lambda>p. is_array_index (fst p)) allItems) @
        filter (\<lambda>p. \<not> is_array_index (fst p)) allItems)"

section \<open>The functions of the program\<close>

text \<open>
  The functions of \<open>src/unnamed/part_000\<close>, which the first file of
  \<open>src/unnamed/part_001\<close> repeats word for word up to the hash check.

  \<open>expandGlobPatterns\<close>: the paths of all patterns, each path once, in the order a
  \<open>Set\<close> keeps (that of the first insertion).
\<close>

definition Set_add :: "string list \<Rightarrow> string \<Rightarrow> string list" where
  "Set_add fileSet path = (if path \<in> set fileSet then fileSet else fileSet @ [path])"

definition expandGlobPatterns :: "env \<Rightarrow> string list \<Rightarrow> string list" where
  "expandGlobPatterns e patterns =
     (let allPatterns = map (asyncGlob e) patterns;
          flattened = concat allPatterns
      in foldl Set_add [] flattened)"

text \<open>
  \<open>loadAndParse\<close>: the parsed contents; when reading or parsing fails, the \<open>Error\<close>
  in strict mode, and a warning and \<open>undefined\<close> (\<open>None\<close>) with \<open>ignoreErrors\<close>.
\<close>

definition load_message :: "string \<Rightarrow> string \<Rightarrow> string" where
  "load_message path msg = ''Couldn't load JSON from '' @ path @ '': '' @ msg"

definition loadAndParse :: "env \<Rightarrow> string \<Rightarrow> bool \<Rightarrow> parsed option io" where
  "loadAndParse e path ignore =
     (case (case readFile e path of
              Inl msg \<Rightarrow> Inl msg
            | Inr buffer \<Rightarrow> JSON_parse e buffer) of
        Inr v \<Rightarrow> ([], Inr (Some v))
      | Inl msg \<Rightarrow>
          (let str = load_message path msg in
           if \<not> ignore then ([], Inl (Error str))
           else ([''Warning: '' @ str], Inr None)))"

text \<open>
  \<open>sortTranslations\<close>: \<open>Array.prototype.sort\<close> with the comparator
  \<open>(a, b) => a.key.localeCompare(b.key)\<close>. The language fixes the result for a
  consistent comparator (sorted, and stable); insertion from the right computes it.
\<close>

fun insort_by :: "(string \<Rightarrow> string \<Rightarrow> int) \<Rightarrow> TranslationItem \<Rightarrow> TranslationItem list \<Rightarrow>
    TranslationItem list" where
  "insort_by cmp a [] = [a]"
| "insort_by cmp a (b # bs) =
     (if cmp (key a) (key b) \<le> 0 then a # b # bs else b # insort_by cmp a bs)"

definition sortTranslations :: "env \<Rightarrow> TranslationItem list \<Rightarrow> TranslationItem list" where
  "sortTranslations e ts = foldr (insort_by (localeCompare e)) ts []"

text \<open>
  The loops of \<open>main\<close>. \<open>truthy\<close> and \<open>truthy_value\<close> are the truth value JavaScript
  gives a \<open>context\<close> and a \<open>translations\<close> property; \<open>template\<close> is how a template
  literal prints a \<open>context\<close>.
\<close>

definition truthy :: "string option \<Rightarrow> bool" where
  "truthy c = (case c of None \<Rightarrow> False | Some s \<Rightarrow> s \<noteq> [])"

definition template :: "string option \<Rightarrow> string" where
  "template c = (case c of None \<Rightarrow> ''undefined'' | Some s \<Rightarrow> s)"

fun truthy_value :: "jsvalue \<Rightarrow> bool" where
  "truthy_value Undefined = False"
| "truthy_value Null = False"
| "truthy_value (Boolean b) = b"
| "truthy_value (Number n) = (n \<noteq> 0)"
| "truthy_value EmptyString = False"
| "truthy_value Object = True"
| "truthy_value (Array items) = True"

text \<open>\<open>parsed?.translations || []\<close>\<close>

definition translations_of :: "parsed option \<Rightarrow> jsvalue" where
  "translations_of p =
     (let t = (case p of Some (JSON_object t) \<Rightarrow> t | _ \<Rightarrow> Undefined)
      in if truthy_value t then t else Array [])"

text \<open>What \<open>for (const item of items)\<close> iterates over; only an array is iterable.\<close>

fun iterate :: "jsvalue \<Rightarrow> error + TranslationItem list" where
  "iterate (Array items) = Inr items"
| "iterate _ = Inl TypeError"

definition conflict_message :: "string \<Rightarrow> string \<Rightarrow> string \<Rightarrow> string \<Rightarrow> string" where
  "conflict_message k value1 value2 path =
     ''Found duplicate keys with different values:\<newline>'' @
     ''Key: '' @ k @ ''\<newline>'' @
     ''Value 1: '' @ value1 @ ''\<newline>'' @
     ''Value 2: '' @ value2 @ '' (in file '' @ path @ '')''"

definition conflict :: "program \<Rightarrow> string \<Rightarrow> allItems \<Rightarrow> allItems io" where
  "conflict p str allItems =
     (if \<not> ignoreErrors p then ([], Inl (Error str))
      else ([''Warning: '' @ str], Inr allItems))"

text \<open>The body of the inner loop, for one \<open>item\<close> of the file at \<open>path\<close>.\<close>

definition main_item :: "program \<Rightarrow> string \<Rightarrow> TranslationItem \<Rightarrow> allItems \<Rightarrow> allItems io" where
  "main_item p path item allItems =
     (case get allItems (key item) of
        Own existing \<Rightarrow>
          if value existing = value item then
            if mergeContext p \<and> \<not> truthy (context existing) \<and> truthy (context item) then
              ([''Pulled context from duplicate entry into '' @ key item @ '': '' @
                  template (context item)],
               Inr (AList.update (key item) (existing\<lparr>context := context item\<rparr>) allItems))
            else ([''Skipping duplicate entry for '' @ key item], Inr allItems)
          else conflict p (conflict_message (key item) (value existing) (value item) path)
            allItems
      | Inherited \<Rightarrow>
          conflict p (conflict_message (key item) ''undefined'' (value item) path) allItems
      | Missing \<Rightarrow> ([], Inr (AList.update (key item) item allItems)))"

fun main_items :: "program \<Rightarrow> string \<Rightarrow> TranslationItem list \<Rightarrow> allItems \<Rightarrow> allItems io" where
  "main_items p path [] allItems = ([], Inr allItems)"
| "main_items p path (item # items) allItems =
     (case main_item p path item allItems of
        (out, Inl err) \<Rightarrow> (out, Inl err)
      | (out, Inr allItems') \<Rightarrow>
          (case main_items p path items allItems' of (out', r) \<Rightarrow> (out @ out', r)))"

text \<open>The body of the outer loop, for one \<open>path\<close>.\<close>

definition main_path :: "env \<Rightarrow> program \<Rightarrow> string \<Rightarrow> allItems \<Rightarrow> allItems io" where
  "main_path e p path allItems =
     (case loadAndParse e path (ignoreErrors p) of
        (out, Inl err) \<Rightarrow> (out, Inl err)
      | (out, Inr parsed) \<Rightarrow>
          (case iterate (translations_of parsed) of
             Inl err \<Rightarrow> (out, Inl err)
           | Inr items \<Rightarrow>
               (case main_items p path items allItems of (out', r) \<Rightarrow> (out @ out', r))))"

fun main_paths :: "env \<Rightarrow> program \<Rightarrow> string list \<Rightarrow> allItems \<Rightarrow> allItems io" where
  "main_paths e p [] allItems = ([], Inr allItems)"
| "main_paths e p (path # paths) allItems =
     (case main_path e p path allItems of
        (out, Inl err) \<Rightarrow> (out, Inl err)
      | (out, Inr allItems') \<Rightarrow>
          (case main_paths e p paths allItems' of (out', r) \<Rightarrow> (out @ out', r)))"

text \<open>
  \<open>main\<close> of the variant with the options \<open>ignoreErrors\<close>, \<open>sort\<close> and
  \<open>mergeContext\<close>: the lines written to \<open>stderr\<close>, and either the error \<open>main\<close> rejects
  with or the object whose JSON text goes to \<open>stdout\<close>.
\<close>

definition finalTranslations :: "env \<Rightarrow> program \<Rightarrow> allItems \<Rightarrow> TranslationItem list" where
  "finalTranslations e p allItems =
     (if sort_opt p then sortTranslations e (Object_values allItems)
      else Object_values allItems)"

definition main :: "env \<Rightarrow> program \<Rightarrow> TranslationObject io" where
  "main e p =
     (let paths = expandGlobPatterns e (args p) in
      case main_paths e p paths [] of
        (out, Inl err) \<Rightarrow> (out, Inl err)
      | (out, Inr allItems) \<Rightarrow>
          (out, Inr \<lparr>language = ''EN'', translations = finalTranslations e p allItems\<rparr>))"

text \<open>
  \<open>main\<close> of the variant with \<open>md5Check\<close>: the same, and between sorting and printing
  one line on \<open>stderr\<close> for every translation whose key is not the hash of its value.
\<close>

definition hash_mismatch :: "env \<Rightarrow> TranslationItem \<Rightarrow> string" where
  "hash_mismatch e translation =
     ''Hash mismatch: string \"'' @ value translation @ ''\" should have key '' @
     ''\"'' @ md5 e (value translation) @ ''\" but actually has \"'' @ key translation @ ''\"''"

definition md5_pass :: "env \<Rightarrow> TranslationItem list \<Rightarrow> string list" where
  "md5_pass e ts = map (hash_mismatch e) (filter (\<lambda>t. key t \<noteq> md5 e (value t)) ts)"

definition main_md5 :: "env \<Rightarrow> program \<Rightarrow> TranslationObject io" where
  "main_md5 e p =
     (let paths = expandGlobPatterns e (args p) in
      case main_paths e p paths [] of
        (out, Inl err) \<Rightarrow> (out, Inl err)
      | (out, Inr allItems) \<Rightarrow>
          (let ts = finalTranslations e p allItems in
           (out @ (if md5Check p then md5_pass e ts else []),
            Inr \<lparr>language = ''EN'', translations = ts\<rparr>)))"

section \<open>The variant without options\<close>

text \<open>
  \<open>src/index.ts\<close> has no options: a file that cannot be loaded and a conflict are
  reported on \<open>stderr\<close> (the conflict without its details) and never abort the run;
  contexts are not merged and the output is not sorted. \<open>main_index\<close> takes the
  remaining arguments of the command line.
\<close>

definition loadAndParse_index :: "env \<Rightarrow> string \<Rightarrow> parsed option io" where
  "loadAndParse_index e path =
     (case (case readFile e path of
              Inl msg \<Rightarrow> Inl msg
            | Inr buffer \<Rightarrow> JSON_parse e buffer) of
        Inr v \<Rightarrow> ([], Inr (Some v))
      | Inl msg \<Rightarrow> ([load_message path msg], Inr None))"

definition main_item_index :: "TranslationItem \<Rightarrow> allItems \<Rightarrow> allItems io" where
  "main_item_index item allItems =
     (case get allItems (key item) of
        Own existing \<Rightarrow>
          if value existing = value item then
            ([''Skipping duplicate entry for '' @ key item], Inr allItems)
          else ([''Warning: Found duplicate keys with different values:\<newline>  ''], Inr allItems)
      | Inherited \<Rightarrow>
          ([''Warning: Found duplicate keys with different values:\<newline>  ''], Inr allItems)
      | Missing \<Rightarrow> ([], Inr (AList.update (key item) item allItems)))"

fun main_items_index :: "TranslationItem list \<Rightarrow> allItems \<Rightarrow> allItems io" where
  "main_items_index [] allItems = ([], Inr allItems)"
| "main_items_index (item # items) allItems =
     (case main_item_index item allItems of
        (out, Inl err) \<Rightarrow> (out, Inl err)
      | (out, Inr allItems') \<Rightarrow>
          (case main_items_index items allItems' of (out', r) \<Rightarrow> (out @ out', r)))"

definition main_path_index :: "env \<Rightarrow> string \<Rightarrow> allItems \<Rightarrow> allItems io" where
  "main_path_index e path allItems =
     (case loadAndParse_index e path of
        (out, Inl err) \<Rightarrow> (out, Inl err)
      | (out, Inr parsed) \<Rightarrow>
          (case iterate (translations_of parsed) of
             Inl err \<Rightarrow> (out, Inl err)
           | Inr items \<Rightarrow>
               (case main_items_index items allItems of (out', r) \<Rightarrow> (out @ out', r))))"

fun main_paths_index :: "env \<Rightarrow> string list \<Rightarrow> allItems \<Rightarrow> allItems io" where
  "main_paths_index e [] allItems = ([], Inr allItems)"
| "main_paths_index e (path # paths) allItems =
     (case main_path_index e path allItems of
        (out, Inl err) \<Rightarrow> (out, Inl err)
      | (out, Inr allItems') \<Rightarrow>
          (case main_paths_index e paths allItems' of (out', r) \<Rightarrow> (out @ out', r)))"

definition main_index :: "env \<Rightarrow> string list \<Rightarrow> TranslationObject io" where
  "main_index e argv =
     (let paths = expandGlobPatterns e argv in
      case main_paths_index e paths [] of
        (out, Inl err) \<Rightarrow> (out, Inl err)
      | (out, Inr allItems) \<Rightarrow>
          (out, Inr \<lparr>language = ''EN'', translations = Object_values allItems\<rparr>))"

section \<open>Notions used in the statements\<close>

text \<open>
  \<open>kept p x x'\<close>: the entry \<open>x'\<close> is the entry \<open>x\<close> with the same key and value, and
  with the same context unless \<open>mergeContext\<close> filled an empty one. \<open>own_ok\<close> is the
  invariant of \<open>allItems\<close>: no name twice, every item under its own key, no name of
  \<open>Object.prototype\<close> among the own names.
\<close>

definition kept :: "program \<Rightarrow> TranslationItem \<Rightarrow> TranslationItem \<Rightarrow> bool" where
  "kept p x x' =
     (key x' = key x \<and> value x' = value x \<and>
      (context x' = context x \<or> mergeContext p \<and> \<not> truthy (context x) \<and> truthy (context x')))"

definition own_ok :: "allItems \<Rightarrow> bool" where
  "own_ok s =
     (distinct (map fst s) \<and>
      list_all (\<lambda>kv. key (snd kv) = fst kv \<and> fst kv \<notin> set Object_prototype) s)"

text \<open>
  \<open>pulled later x x'\<close>: the context of \<open>x'\<close> is that of \<open>x\<close>, or the non-empty
  context of one of the items \<open>later\<close> that has the key and the value of \<open>x\<close>.
\<close>

definition pulled :: "TranslationItem list \<Rightarrow> TranslationItem \<Rightarrow> TranslationItem \<Rightarrow> bool" where
  "pulled later x x' =
     (context x' = context x \<or>
      list_ex (\<lambda>i. key i = key x \<and> value i = value x \<and> truthy (context i) \<and>
        context x' = context i) later)"

text \<open>
  \<open>own_keys\<close>: a list of property names in the order in which \<open>Object.values\<close>
  visits them. \<open>all_items\<close>: the items of all files in the order in which \<open>main\<close> meets them (a
  file that cannot be loaded or holds no array has none). \<open>first_seen\<close>: a list of
  keys without its repetitions, each key at its first place. \<open>consistent\<close>: what
  \<open>Array.prototype.sort\<close> requires of a comparator, namely that "at most 0" is a total
  preorder.
\<close>

definition own_keys :: "string list \<Rightarrow> string list" where
  "own_keys ks =
     sort_key decimal (filter is_array_index ks) @ filter (\<lambda>k. \<not> is_array_index k) ks"

definition file_items :: "env \<Rightarrow> string \<Rightarrow> TranslationItem list" where
  "file_items e path =
     (case readFile e path of
        Inl msg \<Rightarrow> []
      | Inr buffer \<Rightarrow>
          (case JSON_parse e buffer of
             Inl msg \<Rightarrow> []
           | Inr v \<Rightarrow>
               (case iterate (translations_of (Some v)) of
                  Inl err \<Rightarrow> []
                | Inr items \<Rightarrow> items)))"

definition all_items :: "env \<Rightarrow> string list \<Rightarrow> TranslationItem list" where
  "all_items e paths = concat (map (file_items e) paths)"

definition first_seen :: "string list \<Rightarrow> string list" where
  "first_seen ks = rev (remdups (rev ks))"

definition consistent :: "(string \<Rightarrow> string \<Rightarrow> int) \<Rightarrow> bool" where
  "consistent cmp =
     ((\<forall>a b. cmp a b \<le> 0 \<or> cmp b a \<le> 0) \<and>
      (\<forall>a b c. cmp a b \<le> 0 \<longrightarrow> cmp b c \<le> 0 \<longrightarrow> cmp a c \<le> 0))"

text \<open>
  \<open>defaulted\<close>: an item with its context defaulted to the empty string when it has
  none; \<open>default_contexts e\<close>: the collaborators \<open>e\<close> with a parser that defaults the
  context of every item it returns. \<open>plain p\<close>: the options under which the variants
  with options do what the variant without options does.
\<close>

definition defaulted :: "TranslationItem \<Rightarrow> TranslationItem" where
  "defaulted x = x\<lparr>context := Some (case context x of None \<Rightarrow> [] | Some c \<Rightarrow> c)\<rparr>"

fun default_value :: "jsvalue \<Rightarrow> jsvalue" where
  "default_value (Array items) = Array (map defaulted items)"
| "default_value v = v"

fun default_parsed :: "parsed \<Rightarrow> parsed" where
  "default_parsed (JSON_object t) = JSON_object (default_value t)"
| "default_parsed v = v"

definition default_contexts :: "env \<Rightarrow> env" where
  "default_contexts e =
     e\<lparr>JSON_parse :=
         (\<lambda>buffer. case JSON_parse e buffer of
            Inl msg \<Rightarrow> Inl msg
          | Inr v \<Rightarrow> Inr (default_parsed v))\<rparr>"

definition default_stored :: "allItems \<Rightarrow> allItems" where
  "default_stored s = map (\<lambda>(k, x). (k, defaulted x)) s"

definition plain :: "program \<Rightarrow> bool" where
  "plain p = (ignoreErrors p \<and> \<not> sort_opt p \<and> \<not> mergeContext p)"

section \<open>Example inputs\<close>

text \<open>
  A file system given by a list of paths, each with the outcome of parsing its text
  (the text itself is represented by the path); any other path cannot be read. Patterns
  are literal paths, strings compare by code unit, and \<open>rev\<close> stands in for the hash.
\<close>

definition codeUnitCompare :: "string \<Rightarrow> string \<Rightarrow> int" where
  "codeUnitCompare a b = (if a < b then - 1 else if a = b then 0 else 1)"

definition example_env :: "(string \<times> (string + parsed)) list \<Rightarrow> env" where
  "example_env files =
     \<lparr>asyncGlob = (\<lambda>pattern. [pattern]),
      readFile = (\<lambda>path. if path \<in> set (map fst files) then Inr path
         else Inl ''ENOENT: no such file or directory''),
      JSON_parse = (\<lambda>buffer. case map_of files buffer of Some r \<Rightarrow> r
         | None \<Rightarrow> Inl ''Unexpected end of JSON input''),
      localeCompare = codeUnitCompare,
      md5 = rev\<rparr>"

definition example_program :: "bool \<Rightarrow> bool \<Rightarrow> bool \<Rightarrow> string list \<Rightarrow> program" where
  "example_program ignore srt mergeCtx paths =
     \<lparr>ignoreErrors = ignore, sort_opt = srt, mergeContext = mergeCtx, md5Check = True,
      args = paths\<rparr>"

definition entry :: "string \<Rightarrow> string \<Rightarrow> string option \<Rightarrow> TranslationItem" where
  "entry k v c = \<lparr>key = k, value = v, context = c\<rparr>"

definition greeting_files :: "(string \<times> (string + parsed)) list" where
  "greeting_files =
     [(''a.json'', Inr (JSON_object (Array
         [entry ''k1'' ''Hello'' (Some ''''), entry ''k2'' ''Bye'' None]))),
      (''b.json'', Inr (JSON_object (Array
         [entry ''k1'' ''Hello'' (Some ''greeting''), entry ''k2'' ''Adieu'' (Some ''x'')])))]"

definition odd_files :: "(string \<times> (string + parsed)) list" where
  "odd_files =
     greeting_files @
     [(''bad.json'', Inl ''Unexpected token } in JSON at position 1''),
      (''null.json'', Inr JSON_null),
      (''empty.json'', Inr (JSON_object Undefined)),
      (''true.json'', Inr (JSON_object (Boolean True)))]"

definition hash_files :: "(string \<times> (string + parsed)) list" where
  "hash_files =
     [(''h.json'', Inr (JSON_object (Array
         [entry ''olleH'' ''Hello'' None, entry ''k2'' ''Bye'' None, entry ''eybdooG'' ''Goodbye'' None])))]"

definition number_files :: "(string \<times> (string + parsed)) list" where
  "number_files =
     [(''n.json'', Inr (JSON_object (Array
         [entry ''b'' ''Bee'' None, entry ''10'' ''Ten'' None]))),
      (''m.json'', Inr (JSON_object (Array
         [entry ''9'' ''Nine'' None, entry ''a'' ''Ay'' None])))]"

definition inherited_files :: "(string \<times> (string + parsed)) list" where
  "inherited_files =
     [(''one.json'', Inr (JSON_object (Array
         [entry ''constructor'' ''Builder'' (Some ''''),
          entry ''constructor'' ''Builder'' (Some '''')]))),
      (''two.json'', Inr (JSON_object (Array [entry ''k1'' ''Hello'' (Some '''')]))),
      (''three.json'', Inr (JSON_object (Array [entry ''toString'' ''To text'' (Some '''')])))]"

definition inherited_conflict_files :: "(string \<times> (string + parsed)) list" where
  "inherited_conflict_files =
     [(''first.json'', Inr (JSON_object (Array [entry ''toString'' ''A'' (Some '''')]))),
      (''second.json'', Inr (JSON_object (Array [entry ''toString'' ''B'' (Some '''')])))]"

definition inherited_context_files :: "(string \<times> (string + parsed)) list" where
  "inherited_context_files =
     [(''x.json'', Inr (JSON_object (Array [entry ''valueOf'' ''Same'' (Some '''')]))),
      (''y.json'', Inr (JSON_object (Array [entry ''valueOf'' ''Same'' (Some ''C'')])))]"

lemmas run_defs = main_def main_md5_def main_path_def loadAndParse_def load_message_def
  translations_of_def main_item_def get_def Object_prototype_def conflict_def
  conflict_message_def expandGlobPatterns_def Set_add_def finalTranslations_def
  Object_values_def is_array_index_def decimal_def is_digit_def sortTranslations_def
  truthy_def template_def example_env_def example_program_def entry_def codeUnitCompare_def
  md5_pass_def hash_mismatch_def main_index_def main_path_index_def loadAndParse_index_def
  main_item_index_def

section \<open>The inner loop, one item at a time\<close>

lemma kept_refl: "kept p x x"
  by (simp add: kept_def)

lemma kept_trans: "kept p x y \<Longrightarrow> kept p y z \<Longrightarrow> kept p x z"
  by (auto simp: kept_def)

lemma update_absent: "map_of s k = None \<Longrightarrow> AList.update k v s = s @ [(k, v)]"
  by (induction s) (auto split: if_splits)

lemma get_Missing_iff:
  "get s k = Missing \<longleftrightarrow> map_of s k = None \<and> k \<notin> set Object_prototype"
  by (simp add: get_def split: option.splits)

lemma get_Own_iff: "get s k = Own x \<longleftrightarrow> map_of s k = Some x"
  by (simp add: get_def split: option.splits)

lemma get_Inherited_iff:
  "get s k = Inherited \<longleftrightarrow> map_of s k = None \<and> k \<in> set Object_prototype"
  by (simp add: get_def split: option.splits)

lemma main_item_Missing:
  "get s (key item) = Missing \<Longrightarrow>
   main_item p path item s = ([], Inr (s @ [(key item, item)]))"
proof -
  assume g: "get s (key item) = Missing"
  then have "map_of s (key item) = None" by (simp add: get_Missing_iff)
  then show ?thesis using g by (simp add: main_item_def update_absent)
qed

lemma main_item_cases:
  assumes "main_item p path item s = (out, Inr s')"
  shows "(get s (key item) = Missing \<and> s' = s @ [(key item, item)] \<and> out = []) \<or>
         (\<exists>x. map_of s (key item) = Some x \<and> value x = value item \<and> mergeContext p \<and>
            \<not> truthy (context x) \<and> truthy (context item) \<and>
            s' = AList.update (key item) (x\<lparr>context := context item\<rparr>) s) \<or>
         (get s (key item) \<noteq> Missing \<and> s' = s)"
proof (cases "get s (key item)")
  case Missing
  then show ?thesis using assms by (simp add: main_item_Missing)
next
  case (Own x)
  then have "map_of s (key item) = Some x" by (simp add: get_Own_iff)
  then show ?thesis using assms Own
    by (auto simp: main_item_def conflict_def split: if_splits)
next
  case Inherited
  then show ?thesis using assms
    by (auto simp: main_item_def conflict_def split: if_splits)
qed

lemma main_item_kept:
  assumes "main_item p path item s = (out, Inr s')" and "map_of s k = Some x"
  shows "\<exists>x'. map_of s' k = Some x' \<and> kept p x x'"
  using main_item_cases [OF assms(1)] assms(2)
  by (auto simp: kept_def update_conv' get_Missing_iff)

lemma main_items_append:
  "main_items p path (xs @ ys) s =
     (case main_items p path xs s of
        (out, Inl err) \<Rightarrow> (out, Inl err)
      | (out, Inr s') \<Rightarrow> (case main_items p path ys s' of (out', r) \<Rightarrow> (out @ out', r)))"
  by (induction xs arbitrary: s) (auto split: prod.splits sum.splits)

lemma main_paths_append:
  "main_paths e p (xs @ ys) s =
     (case main_paths e p xs s of
        (out, Inl err) \<Rightarrow> (out, Inl err)
      | (out, Inr s') \<Rightarrow> (case main_paths e p ys s' of (out', r) \<Rightarrow> (out @ out', r)))"
  by (induction xs arbitrary: s) (auto split: prod.splits sum.splits)

lemma main_items_kept:
  "main_items p path items s = (out, Inr s') \<Longrightarrow> map_of s k = Some x \<Longrightarrow>
   \<exists>x'. map_of s' k = Some x' \<and> kept p x x'"
proof (induction items arbitrary: s out x)
  case Nil
  then show ?case by (auto simp: kept_refl)
next
  case (Cons item items)
  from Cons.prems(1) obtain o1 s1 o2 where
    step: "main_item p path item s = (o1, Inr s1)" and
    rest: "main_items p path items s1 = (o2, Inr s')"
    by (auto split: prod.splits sum.splits)
  from main_item_kept [OF step Cons.prems(2)] obtain x1 where
    x1: "map_of s1 k = Some x1" "kept p x x1" by blast
  from Cons.IH [OF rest x1(1)] obtain x' where "map_of s' k = Some x'" "kept p x1 x'" by blast
  with x1(2) show ?case by (blast intro: kept_trans)
qed

lemma main_path_Inr:
  assumes "main_path e p path s = (out, Inr s')"
  shows "\<exists>items out1 out2 parsed. loadAndParse e path (ignoreErrors p) = (out1, Inr parsed) \<and>
           iterate (translations_of parsed) = Inr items \<and>
           main_items p path items s = (out2, Inr s') \<and> out = out1 @ out2"
  using assms by (auto simp: main_path_def split: prod.splits sum.splits)

lemma main_path_kept:
  "main_path e p path s = (out, Inr s') \<Longrightarrow> map_of s k = Some x \<Longrightarrow>
   \<exists>x'. map_of s' k = Some x' \<and> kept p x x'"
  by (blast dest: main_path_Inr main_items_kept)

lemma main_paths_kept:
  "main_paths e p paths s = (out, Inr s') \<Longrightarrow> map_of s k = Some x \<Longrightarrow>
   \<exists>x'. map_of s' k = Some x' \<and> kept p x x'"
proof (induction paths arbitrary: s out x)
  case Nil
  then show ?case by (auto simp: kept_refl)
next
  case (Cons path paths)
  from Cons.prems(1) obtain o1 s1 o2 where
    step: "main_path e p path s = (o1, Inr s1)" and
    rest: "main_paths e p paths s1 = (o2, Inr s')"
    by (auto split: prod.splits sum.splits)
  from main_path_kept [OF step Cons.prems(2)] obtain x1 where
    x1: "map_of s1 k = Some x1" "kept p x x1" by blast
  from Cons.IH [OF rest x1(1)] obtain x' where "map_of s' k = Some x'" "kept p x1 x'" by blast
  with x1(2) show ?case by (blast intro: kept_trans)
qed

lemma set_update_subset: "set (AList.update k v s) \<subseteq> insert (k, v) (set s)"
  by (induction s) auto

lemma main_item_own_ok:
  assumes "main_item p path item s = (out, Inr s')" and "own_ok s"
  shows "own_ok s'"
  using main_item_cases [OF assms(1)] assms(2)
  by (auto simp: own_ok_def get_Missing_iff list_all_iff distinct_update
      dest!: map_of_SomeD set_update_subset [THEN subsetD] split: if_splits)

lemma main_items_own_ok:
  "main_items p path items s = (out, Inr s') \<Longrightarrow> own_ok s \<Longrightarrow> own_ok s'"
proof (induction items arbitrary: s out)
  case Nil
  then show ?case by simp
next
  case (Cons item items)
  from Cons.prems(1) obtain o1 s1 o2 where
    step: "main_item p path item s = (o1, Inr s1)" and
    rest: "main_items p path items s1 = (o2, Inr s')"
    by (auto split: prod.splits sum.splits)
  show ?case by (rule Cons.IH [OF rest main_item_own_ok [OF step Cons.prems(2)]])
qed

lemma main_path_own_ok:
  "main_path e p path s = (out, Inr s') \<Longrightarrow> own_ok s \<Longrightarrow> own_ok s'"
  by (blast dest: main_path_Inr main_items_own_ok)

lemma main_paths_own_ok:
  "main_paths e p paths s = (out, Inr s') \<Longrightarrow> own_ok s \<Longrightarrow> own_ok s'"
proof (induction paths arbitrary: s out)
  case Nil
  then show ?case by simp
next
  case (Cons path paths)
  from Cons.prems(1) obtain o1 s1 o2 where
    step: "main_path e p path s = (o1, Inr s1)" and
    rest: "main_paths e p paths s1 = (o2, Inr s')"
    by (auto split: prod.splits sum.splits)
  show ?case by (rule Cons.IH [OF rest main_path_own_ok [OF step Cons.prems(2)]])
qed

lemma own_ok_Nil: "own_ok []"
  by (simp add: own_ok_def)

lemma mset_Object_values: "mset (Object_values s) = mset (map snd s)"
proof -
  have "mset (Object_values s) =
        image_mset snd {#x \<in># mset s. is_array_index (fst x)#} +
        image_mset snd {#x \<in># mset s. \<not> is_array_index (fst x)#}"
    by (simp add: Object_values_def)
  also have "\<dots> = image_mset snd (mset s)"
    by (metis image_mset_union multiset_partition)
  finally show ?thesis by simp
qed

lemma mset_insort_by: "mset (insort_by cmp a bs) = add_mset a (mset bs)"
  by (induction bs) auto

lemma mset_sortTranslations: "mset (sortTranslations e ts) = mset ts"
  by (induction ts) (auto simp: sortTranslations_def mset_insort_by)

lemma mset_finalTranslations: "mset (finalTranslations e p s) = mset (map snd s)"
  by (simp add: finalTranslations_def mset_sortTranslations mset_Object_values)

lemma set_finalTranslations: "set (finalTranslations e p s) = snd ` set s"
  using mset_finalTranslations [of e p s, THEN arg_cong [where f = set_mset]] by simp

lemma own_ok_keys: "own_ok s \<Longrightarrow> map key (map snd s) = map fst s"
  by (induction s) (auto simp: own_ok_def)

lemma distinct_finalTranslations:
  assumes "own_ok s"
  shows "distinct (map key (finalTranslations e p s))"
proof -
  have "mset (map key (finalTranslations e p s)) = mset (map fst s)"
    using own_ok_keys [OF assms] mset_finalTranslations [of e p s] by (metis mset_map)
  moreover have "distinct (map fst s)" using assms by (simp add: own_ok_def)
  ultimately show ?thesis by (metis mset_eq_imp_distinct_iff)
qed

lemma filter_distinct_key:
  "distinct (map f xs) \<Longrightarrow> x \<in> set xs \<Longrightarrow> filter (\<lambda>t. f t = f x) xs = [x]"
proof (induction xs)
  case Nil
  then show ?case by simp
next
  case (Cons y ys)
  show ?case
  proof (cases "x = y")
    case True
    have "f y \<notin> f ` set ys" using Cons.prems(1) by simp
    then have "filter (\<lambda>t. f t = f y) ys = []"
      unfolding filter_empty_conv by (metis image_eqI)
    with True show ?thesis by simp
  next
    case False
    with Cons have "filter (\<lambda>t. f t = f x) ys = [x]" "f y \<noteq> f x" by auto
    then show ?thesis by simp
  qed
qed

lemma final_entry:
  assumes "own_ok s" and "map_of s k = Some x"
  shows "filter (\<lambda>t. key t = k) (finalTranslations e p s) = [x]"
proof -
  from assms(2) have mem: "(k, x) \<in> set s" by (rule map_of_SomeD)
  with assms(1) have kx: "key x = k" by (auto simp: own_ok_def list_all_iff)
  from mem have "x \<in> set (finalTranslations e p s)"
    by (force simp: set_finalTranslations)
  from filter_distinct_key [OF distinct_finalTranslations [OF assms(1)] this]
  show ?thesis by (simp add: kx)
qed

lemma main_Inr:
  assumes "snd (main e p) = Inr doc"
  shows "\<exists>out s. main_paths e p (expandGlobPatterns e (args p)) [] = (out, Inr s) \<and>
           main e p = (out, Inr doc) \<and>
           doc = \<lparr>language = ''EN'', translations = finalTranslations e p s\<rparr>"
  using assms by (auto simp: main_def Let_def split: prod.splits sum.splits)

lemma snd_main_md5: "snd (main_md5 e p) = snd (main e p)"
  by (auto simp: main_def main_md5_def Let_def split: prod.splits sum.splits)

section \<open>The own keys in the order of their creation\<close>

lemma set_foldl_Set_add: "set (foldl Set_add acc ks) = set acc \<union> set ks"
  by (induction ks arbitrary: acc) (auto simp: Set_add_def)

lemma first_seen_snoc:
  "first_seen (ks @ [k]) = (if k \<in> set ks then first_seen ks else first_seen ks @ [k])"
  by (simp add: first_seen_def)

lemma foldl_Set_add_first_seen: "foldl Set_add [] ks = first_seen ks"
proof (induction ks rule: rev_induct)
  case Nil
  then show ?case by (simp add: first_seen_def)
next
  case (snoc k ks)
  have "set (first_seen ks) = set ks" by (simp add: first_seen_def)
  with snoc show ?case by (simp add: first_seen_snoc Set_add_def)
qed

lemma main_item_keys:
  assumes "main_item p path item s = (out, Inr s')"
  shows "map fst s' =
    (if key item \<in> set Object_prototype then map fst s else Set_add (map fst s) (key item))"
proof -
  have absent: "map_of s (key item) = None \<longleftrightarrow> key item \<notin> set (map fst s)"
    by (simp add: map_of_eq_None_iff)
  from main_item_cases [OF assms] show ?thesis
  proof (elim disjE conjE exE)
    assume "get s (key item) = Missing" "s' = s @ [(key item, item)]"
    then show ?thesis using absent by (simp add: get_Missing_iff Set_add_def)
  next
    fix x
    assume x: "map_of s (key item) = Some x"
      and s': "s' = AList.update (key item) (x\<lparr>context := context item\<rparr>) s"
    from x have "key item \<in> set (map fst s)" using absent by simp
    then show ?thesis by (simp add: s' update_keys Set_add_def)
  next
    assume "get s (key item) \<noteq> Missing" "s' = s"
    then show ?thesis using absent
      by (auto simp: get_Missing_iff Set_add_def)
  qed
qed

lemma main_items_keys:
  "main_items p path items s = (out, Inr s') \<Longrightarrow>
   map fst s' =
     foldl Set_add (map fst s) (filter (\<lambda>k. k \<notin> set Object_prototype) (map key items))"
proof (induction items arbitrary: s out)
  case Nil
  then show ?case by simp
next
  case (Cons item items)
  from Cons.prems obtain o1 s1 o2 where
    step: "main_item p path item s = (o1, Inr s1)" and
    rest: "main_items p path items s1 = (o2, Inr s')"
    by (auto split: prod.splits sum.splits)
  show ?case
    by (simp add: Cons.IH [OF rest] main_item_keys [OF step])
qed

lemma loadAndParse_file_items:
  assumes "loadAndParse e path ignore = (out, Inr parsed)"
    and "iterate (translations_of parsed) = Inr items"
  shows "file_items e path = items"
  using assms
  by (auto simp: loadAndParse_def file_items_def translations_of_def Let_def
      split: sum.splits if_splits)

lemma main_path_keys:
  assumes "main_path e p path s = (out, Inr s')"
  shows "map fst s' =
     foldl Set_add (map fst s)
       (filter (\<lambda>k. k \<notin> set Object_prototype) (map key (file_items e path)))"
proof -
  from main_path_Inr [OF assms] obtain items out1 out2 parsed where
    "loadAndParse e path (ignoreErrors p) = (out1, Inr parsed)"
    "iterate (translations_of parsed) = Inr items"
    "main_items p path items s = (out2, Inr s')"
    by blast
  then show ?thesis
    by (simp add: loadAndParse_file_items main_items_keys)
qed

lemma main_paths_keys:
  "main_paths e p paths s = (out, Inr s') \<Longrightarrow>
   map fst s' =
     foldl Set_add (map fst s)
       (filter (\<lambda>k. k \<notin> set Object_prototype) (map key (all_items e paths)))"
proof (induction paths arbitrary: s out)
  case Nil
  then show ?case by (simp add: all_items_def)
next
  case (Cons path paths)
  from Cons.prems obtain o1 s1 o2 where
    step: "main_path e p path s = (o1, Inr s1)" and
    rest: "main_paths e p paths s1 = (o2, Inr s')"
    by (auto split: prod.splits sum.splits)
  from Cons.IH [OF rest] main_path_keys [OF step] show ?case
    by (simp add: all_items_def)
qed

section \<open>The stored value is the value first seen\<close>

lemma main_item_first:
  assumes "main_item p path item s = (out, Inr s')" and "map_of s' k = Some x"
  shows "case map_of s k of
           Some y \<Rightarrow> value x = value y
         | None \<Rightarrow> key item = k \<and> x = item"
  using main_item_cases [OF assms(1)] assms(2)
  by (auto simp: update_conv' get_Missing_iff split: option.splits if_splits)

lemma stored_not_inherited:
  assumes "main_items p path items s = (out, Inr s')"
    and "map_of s k = None" and "k \<in> set Object_prototype"
  shows "map_of s' k = None"
proof -
  from assms(2) have "k \<notin> set (map fst s)" by (simp add: map_of_eq_None_iff)
  with main_items_keys [OF assms(1)] assms(3) have "k \<notin> set (map fst s')"
    by (simp add: set_foldl_Set_add)
  then show ?thesis by (simp add: map_of_eq_None_iff)
qed

lemma stored_not_inherited_paths:
  assumes "main_paths e p paths s = (out, Inr s')"
    and "map_of s k = None" and "k \<in> set Object_prototype"
  shows "map_of s' k = None"
proof -
  from assms(2) have "k \<notin> set (map fst s)" by (simp add: map_of_eq_None_iff)
  with main_paths_keys [OF assms(1)] assms(3) have "k \<notin> set (map fst s')"
    by (simp add: set_foldl_Set_add)
  then show ?thesis by (simp add: map_of_eq_None_iff)
qed

lemma main_items_first:
  "main_items p path items s = (out, Inr s') \<Longrightarrow> map_of s' k = Some x \<Longrightarrow>
   (case map_of s k of
      Some y \<Rightarrow> value x = value y
    | None \<Rightarrow> (\<exists>f. find (\<lambda>i. key i = k) items = Some f \<and> value x = value f))"
proof (induction items arbitrary: s out)
  case Nil
  then show ?case by simp
next
  case (Cons item items)
  from Cons.prems(1) obtain o1 s1 o2 where
    step: "main_item p path item s = (o1, Inr s1)" and
    rest: "main_items p path items s1 = (o2, Inr s')"
    by (auto split: prod.splits sum.splits)
  note ih = Cons.IH [OF rest Cons.prems(2)]
  show ?case
  proof (cases "map_of s k")
    case (Some y)
    from main_item_kept [OF step Some] obtain y1 where
      "map_of s1 k = Some y1" "kept p y y1" by blast
    with ih Some show ?thesis by (simp add: kept_def)
  next
    case None
    show ?thesis
    proof (cases "map_of s1 k")
      case (Some y1)
      from main_item_first [OF step Some] None have "key item = k" "y1 = item" by simp_all
      with ih Some None show ?thesis by simp
    next
      case None1: None
      have "key item \<noteq> k"
      proof
        assume k: "key item = k"
        from main_item_cases [OF step] None1 k have "get s k \<noteq> Missing"
          by (auto simp: update_conv')
        with None have "k \<in> set Object_prototype" by (simp add: get_Missing_iff)
        from stored_not_inherited [OF rest None1 this] Cons.prems(2) show False by simp
      qed
      with ih None1 None show ?thesis by simp
    qed
  qed
qed

lemma find_append:
  "find P (xs @ ys) = (case find P xs of Some x \<Rightarrow> Some x | None \<Rightarrow> find P ys)"
  by (induction xs) auto

lemma main_paths_first:
  "main_paths e p paths s = (out, Inr s') \<Longrightarrow> map_of s' k = Some x \<Longrightarrow>
   (case map_of s k of
      Some y \<Rightarrow> value x = value y
    | None \<Rightarrow> (\<exists>f. find (\<lambda>i. key i = k) (all_items e paths) = Some f \<and> value x = value f))"
proof (induction paths arbitrary: s out x)
  case Nil
  then show ?case by simp
next
  case (Cons path paths)
  from Cons.prems(1) obtain o1 s1 o2 where
    step: "main_path e p path s = (o1, Inr s1)" and
    rest: "main_paths e p paths s1 = (o2, Inr s')"
    by (auto split: prod.splits sum.splits)
  from main_path_Inr [OF step] obtain items out1 out2 parsed where
    load: "loadAndParse e path (ignoreErrors p) = (out1, Inr parsed)"
      "iterate (translations_of parsed) = Inr items" and
    items: "main_items p path items s = (out2, Inr s1)"
    by blast
  have all: "all_items e (path # paths) = items @ all_items e paths"
    by (simp add: all_items_def loadAndParse_file_items [OF load])
  note ih = Cons.IH [OF rest Cons.prems(2)]
  show ?case
  proof (cases "map_of s1 k")
    case (Some y1)
    from main_items_first [OF items Some] ih Some show ?thesis
      by (auto simp: all find_append split: option.splits)
  next
    case None
    have "map_of s k = None"
    proof (cases "map_of s k")
      case (Some y)
      from main_items_kept [OF items Some] None show ?thesis by auto
    qed simp
    moreover have "find (\<lambda>i. key i = k) items = None"
    proof (cases "find (\<lambda>i. key i = k) items")
      case (Some f)
      then have "k \<in> set (map key items)" by (auto simp: find_Some_iff)
      moreover have "k \<notin> set Object_prototype"
      proof
        assume "k \<in> set Object_prototype"
        from stored_not_inherited_paths [OF rest None this] Cons.prems(2) show False
          by simp
      qed
      ultimately have "k \<in> set (map fst s1)"
        using main_items_keys [OF items] by (simp add: set_foldl_Set_add)
      with None show ?thesis by (simp add: map_of_eq_None_iff)
    qed simp
    ultimately show ?thesis using ih None by (simp add: all find_append)
  qed
qed

lemma reached_first_seen:
  assumes "main_paths e p ps1 [] = (out1, Inr s1)"
    and "main_items p path is1 s1 = (out2, Inr s)"
    and "map_of s k = Some x"
  shows "\<exists>f. find (\<lambda>i. key i = k) (all_items e ps1 @ is1) = Some f \<and> value x = value f"
proof (cases "map_of s1 k")
  case (Some y)
  from main_paths_first [OF assms(1) Some] obtain f where
    "find (\<lambda>i. key i = k) (all_items e ps1) = Some f" "value y = value f" by auto
  moreover from main_items_first [OF assms(2,3)] Some have "value x = value y" by simp
  ultimately show ?thesis by (simp add: find_append)
next
  case None
  from main_items_first [OF assms(2,3)] None obtain f where
    f: "find (\<lambda>i. key i = k) is1 = Some f" "value x = value f" by auto
  have "find (\<lambda>i. key i = k) (all_items e ps1) = None"
  proof (cases "find (\<lambda>i. key i = k) (all_items e ps1)")
    case (Some g)
    then have mem: "k \<in> set (map key (all_items e ps1))" by (auto simp: find_Some_iff)
    have "k \<notin> set Object_prototype"
    proof
      assume "k \<in> set Object_prototype"
      from stored_not_inherited [OF assms(2) None this] assms(3) show False by simp
    qed
    with main_paths_keys [OF assms(1)] mem have "k \<in> set (map fst s1)"
      by (simp add: set_foldl_Set_add)
    with None show ?thesis by (simp add: map_of_eq_None_iff)
  qed simp
  with f show ?thesis by (simp add: find_append)
qed

section \<open>Runs that reach a given item\<close>

lemma loadAndParse_loaded:
  "readFile e path = Inr buffer \<Longrightarrow> JSON_parse e buffer = Inr v \<Longrightarrow>
   loadAndParse e path ignore = ([], Inr (Some v))"
  by (simp add: loadAndParse_def)

lemma main_path_loaded:
  "readFile e path = Inr buffer \<Longrightarrow> JSON_parse e buffer = Inr (JSON_object (Array items)) \<Longrightarrow>
   main_path e p path s = main_items p path items s"
  by (simp add: main_path_def loadAndParse_loaded translations_of_def split: prod.splits)

lemma run_split:
  assumes "main_paths e p ps1 [] = (out1, Inr s1)"
    and "readFile e path = Inr buffer"
    and "JSON_parse e buffer = Inr (JSON_object (Array (is1 @ is2)))"
    and "main_items p path is1 s1 = (out2, Inr s)"
  shows "main_paths e p (ps1 @ path # ps2) [] =
     (case main_items p path is2 s of
        (out3, Inl err) \<Rightarrow> (out1 @ out2 @ out3, Inl err)
      | (out3, Inr s3) \<Rightarrow>
          (case main_paths e p ps2 s3 of (out4, r) \<Rightarrow> (out1 @ out2 @ out3 @ out4, r)))"
  using assms
  by (simp add: main_paths_append main_path_loaded main_items_append split: prod.splits sum.splits)

lemma run_split_Inr:
  assumes "main_paths e p ps1 [] = (out1, Inr s1)"
    and "readFile e path = Inr buffer"
    and "JSON_parse e buffer = Inr (JSON_object (Array (is1 @ is2)))"
    and "main_items p path is1 s1 = (out2, Inr s)"
    and "main_paths e p (ps1 @ path # ps2) [] = (out, Inr s')"
  shows "\<exists>out3 s3 out4. main_items p path is2 s = (out3, Inr s3) \<and>
           main_paths e p ps2 s3 = (out4, Inr s') \<and> out = out1 @ out2 @ out3 @ out4"
  using assms(5) unfolding run_split [OF assms(1-4)]
  by (auto split: prod.splits sum.splits)

lemma fst_main: "fst (main e p) = fst (main_paths e p (expandGlobPatterns e (args p)) [])"
  by (auto simp: main_def Let_def split: prod.splits sum.splits)

lemma main_Inl:
  "main_paths e p (expandGlobPatterns e (args p)) [] = (out, Inl err) \<Longrightarrow>
   main e p = (out, Inl err)"
  by (simp add: main_def)

lemma main_item_conflict:
  "map_of s (key item) = Some existing \<Longrightarrow> value existing \<noteq> value item \<Longrightarrow>
   main_item p path item s =
     conflict p (conflict_message (key item) (value existing) (value item) path) s"
  by (simp add: main_item_def get_def)

lemma reached_entry_final:
  assumes paths: "expandGlobPatterns e (args p) = ps1 @ path # ps2"
    and before: "main_paths e p ps1 [] = (out1, Inr s1)"
    and rd: "readFile e path = Inr buffer"
    and parse: "JSON_parse e buffer = Inr (JSON_object (Array (is1 @ is2)))"
    and within: "main_items p path is1 s1 = (out2, Inr s)"
    and stored: "map_of s k = Some x"
    and fin: "snd (main e p) = Inr doc"
  shows "\<exists>x'. filter (\<lambda>t. key t = k) (translations doc) = [x'] \<and> kept p x x'"
proof -
  from main_Inr [OF fin] paths obtain out s' where
    run: "main_paths e p (ps1 @ path # ps2) [] = (out, Inr s')" and
    doc: "doc = \<lparr>language = ''EN'', translations = finalTranslations e p s'\<rparr>"
    by auto
  from run_split_Inr [OF before rd parse within run] obtain out3 s3 out4 where
    a: "main_items p path is2 s = (out3, Inr s3)" and
    b: "main_paths e p ps2 s3 = (out4, Inr s')"
    by blast
  from main_items_kept [OF a stored] obtain x3 where
    x3: "map_of s3 k = Some x3" "kept p x x3" by blast
  from main_paths_kept [OF b x3(1)] obtain x' where
    x': "map_of s' k = Some x'" "kept p x3 x'" by blast
  have ok: "own_ok s'" by (rule main_paths_own_ok [OF run own_ok_Nil])
  have "kept p x x'" by (rule kept_trans [OF x3(2) x'(2)])
  with final_entry [OF ok x'(1), of e p] show ?thesis
    by (simp add: doc)
qed

section \<open>Where a pulled context comes from\<close>

lemma pulled_refl: "pulled later x x"
  by (simp add: pulled_def)

lemma pulled_trans:
  assumes "pulled xs x y" and "pulled ys y z" and "key y = key x" and "value y = value x"
  shows "pulled (xs @ ys) x z"
  using assms by (auto simp: pulled_def list_ex_iff)

lemma main_item_pulled:
  assumes "main_item p path item s = (out, Inr s')"
    and "map_of s k = Some x" and "key x = k"
  shows "\<exists>x'. map_of s' k = Some x' \<and> pulled [item] x x'"
  using main_item_cases [OF assms(1)] assms(2,3)
  by (auto simp: pulled_def update_conv' get_Missing_iff)

lemma main_items_pulled:
  "main_items p path items s = (out, Inr s') \<Longrightarrow> map_of s k = Some x \<Longrightarrow> key x = k \<Longrightarrow>
   \<exists>x'. map_of s' k = Some x' \<and> pulled items x x'"
proof (induction items arbitrary: s out x)
  case Nil
  then show ?case by (simp add: pulled_refl)
next
  case (Cons item items)
  from Cons.prems(1) obtain o1 s1 o2 where
    step: "main_item p path item s = (o1, Inr s1)" and
    rest: "main_items p path items s1 = (o2, Inr s')"
    by (auto split: prod.splits sum.splits)
  from main_item_pulled [OF step Cons.prems(2,3)] obtain x1 where
    x1: "map_of s1 k = Some x1" "pulled [item] x x1" by blast
  from main_item_kept [OF step Cons.prems(2)] x1(1) have same: "key x1 = key x" "value x1 = value x"
    by (auto simp: kept_def)
  with Cons.prems(3) have "key x1 = k" by simp
  from Cons.IH [OF rest x1(1) this] obtain x' where
    x': "map_of s' k = Some x'" "pulled items x1 x'" by blast
  from pulled_trans [OF x1(2) x'(2) same] x'(1) show ?case by auto
qed

lemma main_paths_pulled:
  "main_paths e p paths s = (out, Inr s') \<Longrightarrow> map_of s k = Some x \<Longrightarrow> key x = k \<Longrightarrow>
   \<exists>x'. map_of s' k = Some x' \<and> pulled (all_items e paths) x x'"
proof (induction paths arbitrary: s out x)
  case Nil
  then show ?case by (simp add: pulled_refl)
next
  case (Cons path paths)
  from Cons.prems(1) obtain o1 s1 o2 where
    step: "main_path e p path s = (o1, Inr s1)" and
    rest: "main_paths e p paths s1 = (o2, Inr s')"
    by (auto split: prod.splits sum.splits)
  from main_path_Inr [OF step] obtain items out1 out2 parsed where
    load: "loadAndParse e path (ignoreErrors p) = (out1, Inr parsed)"
      "iterate (translations_of parsed) = Inr items" and
    items: "main_items p path items s = (out2, Inr s1)"
    by blast
  have all: "all_items e (path # paths) = items @ all_items e paths"
    by (simp add: all_items_def loadAndParse_file_items [OF load])
  from main_items_pulled [OF items Cons.prems(2,3)] obtain x1 where
    x1: "map_of s1 k = Some x1" "pulled items x x1" by blast
  from main_items_kept [OF items Cons.prems(2)] x1(1) have same: "key x1 = key x" "value x1 = value x"
    by (auto simp: kept_def)
  with Cons.prems(3) have "key x1 = k" by simp
  from Cons.IH [OF rest x1(1) this] obtain x' where
    x': "map_of s' k = Some x'" "pulled (all_items e paths) x1 x'" by blast
  from pulled_trans [OF x1(2) x'(2) same] x'(1) show ?case by (auto simp: all)
qed

lemma reached_own_ok:
  assumes "main_paths e p ps1 [] = (out1, Inr s1)"
    and "main_items p path is1 s1 = (out2, Inr s)"
  shows "own_ok s"
  by (rule main_items_own_ok [OF assms(2) main_paths_own_ok [OF assms(1) own_ok_Nil]])

lemma own_ok_key: "own_ok s \<Longrightarrow> map_of s k = Some x \<Longrightarrow> key x = k"
  by (auto simp: own_ok_def list_all_iff dest!: map_of_SomeD)

lemma reached_entry_pulled:
  assumes paths: "expandGlobPatterns e (args p) = ps1 @ path # ps2"
    and before: "main_paths e p ps1 [] = (out1, Inr s1)"
    and rd: "readFile e path = Inr buffer"
    and parse: "JSON_parse e buffer = Inr (JSON_object (Array (is1 @ is2)))"
    and within: "main_items p path is1 s1 = (out2, Inr s)"
    and stored: "map_of s k = Some x"
    and fin: "snd (main e p) = Inr doc"
  shows "\<exists>x'. filter (\<lambda>t. key t = k) (translations doc) = [x'] \<and> kept p x x' \<and>
    pulled (is2 @ all_items e ps2) x x'"
proof -
  from main_Inr [OF fin] paths obtain out s' where
    run: "main_paths e p (ps1 @ path # ps2) [] = (out, Inr s')" and
    doc: "doc = \<lparr>language = ''EN'', translations = finalTranslations e p s'\<rparr>"
    by auto
  from run_split_Inr [OF before rd parse within run] obtain out3 s3 out4 where
    a: "main_items p path is2 s = (out3, Inr s3)" and
    b: "main_paths e p ps2 s3 = (out4, Inr s')"
    by blast
  have kx: "key x = k"
    by (rule own_ok_key [OF reached_own_ok [OF before within] stored])
  from main_items_pulled [OF a stored kx] obtain x3 where
    x3: "map_of s3 k = Some x3" "pulled is2 x x3" by blast
  from main_items_kept [OF a stored] x3(1) have k3: "kept p x x3" by auto
  then have same: "key x3 = key x" "value x3 = value x" by (simp_all add: kept_def)
  with kx have "key x3 = k" by simp
  from main_paths_pulled [OF b x3(1) this] obtain x' where
    x': "map_of s' k = Some x'" "pulled (all_items e ps2) x3 x'" by blast
  from main_paths_kept [OF b x3(1)] x'(1) have k': "kept p x3 x'" by auto
  have ok: "own_ok s'" by (rule main_paths_own_ok [OF run own_ok_Nil])
  have "kept p x x'" by (rule kept_trans [OF k3 k'])
  moreover have "pulled (is2 @ all_items e ps2) x x'"
    by (rule pulled_trans [OF x3(2) x'(2) same])
  ultimately show ?thesis
    using final_entry [OF ok x'(1), of e p] by (simp add: doc)
qed

section \<open>The variant without options, and the options that make the others agree with it\<close>

lemma main_item_index_snd:
  "plain p \<Longrightarrow> snd (main_item_index item s) = snd (main_item p path item s)"
  by (simp add: plain_def main_item_index_def main_item_def conflict_def split: property.splits)

lemma main_items_index_snd:
  "plain p \<Longrightarrow> snd (main_items_index items s) = snd (main_items p path items s)"
proof (induction items arbitrary: s)
  case Nil
  then show ?case by simp
next
  case (Cons item items)
  from main_item_index_snd [OF Cons.prems, of item s path]
  show ?case
    by (cases "main_item_index item s"; cases "main_item p path item s")
      (auto simp: Cons.IH [OF Cons.prems] split: prod.splits sum.splits
        dest: arg_cong [where f = snd])
qed

lemma loadAndParse_index_snd:
  "snd (loadAndParse_index e path) = snd (loadAndParse e path True)"
  by (simp add: loadAndParse_index_def loadAndParse_def split: sum.splits)

lemma main_path_index_snd:
  assumes "plain p"
  shows "snd (main_path_index e path s) = snd (main_path e p path s)"
proof -
  from assms have ign: "ignoreErrors p" by (simp add: plain_def)
  from loadAndParse_index_snd [of e path] main_items_index_snd [OF assms, of _ s path]
  show ?thesis
    by (cases "loadAndParse_index e path"; cases "loadAndParse e path True")
      (auto simp: main_path_index_def main_path_def ign split: prod.splits sum.splits
        dest: arg_cong [where f = snd])
qed

lemma main_paths_index_snd:
  "plain p \<Longrightarrow> snd (main_paths_index e paths s) = snd (main_paths e p paths s)"
proof (induction paths arbitrary: s)
  case Nil
  then show ?case by simp
next
  case (Cons path paths)
  from main_path_index_snd [OF Cons.prems, of e path s]
  show ?case
    by (cases "main_path_index e path s"; cases "main_path e p path s")
      (auto simp: Cons.IH [OF Cons.prems] split: prod.splits sum.splits
        dest: arg_cong [where f = snd])
qed

lemma main_index_result:
  assumes "plain p"
  shows "snd (main_index e (args p)) = snd (main e p)"
proof -
  from assms have "\<not> sort_opt p" by (simp add: plain_def)
  with main_paths_index_snd [OF assms, of e "expandGlobPatterns e (args p)" "[]"]
  show ?thesis
    by (cases "main_paths_index e (expandGlobPatterns e (args p)) []";
        cases "main_paths e p (expandGlobPatterns e (args p)) []")
      (auto simp: main_index_def main_def finalTranslations_def split: sum.splits)
qed

lemma main_paths_index_append:
  "main_paths_index e (xs @ ys) s =
     (case main_paths_index e xs s of
        (out, Inl err) \<Rightarrow> (out, Inl err)
      | (out, Inr s') \<Rightarrow> (case main_paths_index e ys s' of (out', r) \<Rightarrow> (out @ out', r)))"
  by (induction xs arbitrary: s) (auto split: prod.splits sum.splits)

lemma main_paths_index_glob:
  "main_paths_index (e\<lparr>asyncGlob := g\<rparr>) paths s = main_paths_index e paths s"
proof -
  have "\<And>path s. main_path_index (e\<lparr>asyncGlob := g\<rparr>) path s = main_path_index e path s"
    by (simp add: main_path_index_def loadAndParse_index_def cong: sum.case_cong)
  then show ?thesis
    by (induction paths arbitrary: s) simp_all
qed

lemma main_index_of_paths:
  "expandGlobPatterns e argv = paths \<Longrightarrow>
   main_index e argv =
     (case main_paths_index e paths [] of
        (out, Inl err) \<Rightarrow> (out, Inl err)
      | (out, Inr allItems) \<Rightarrow>
          (out, Inr \<lparr>language = ''EN'', translations = Object_values allItems\<rparr>))"
  by (simp add: main_index_def)

lemma main_path_index_no_translations:
  assumes "readFile e path = Inr buffer" and "JSON_parse e buffer = Inr v"
    and "case v of JSON_object t \<Rightarrow> \<not> truthy_value t | _ \<Rightarrow> True"
  shows "main_path_index e path s = ([], Inr s)"
  using assms
  by (cases v) (simp_all add: main_path_index_def loadAndParse_index_def translations_of_def)

section \<open>Files that contribute nothing\<close>

lemma main_item_args: "main_item (p\<lparr>args := a\<rparr>) path item s = main_item p path item s"
  by (simp add: main_item_def conflict_def split: property.splits)

lemma main_items_args: "main_items (p\<lparr>args := a\<rparr>) path items s = main_items p path items s"
  by (induction items arbitrary: s) (simp_all add: main_item_args)

lemma loadAndParse_glob:
  "loadAndParse (e\<lparr>asyncGlob := g\<rparr>) path ignore = loadAndParse e path ignore"
  by (simp add: loadAndParse_def cong: sum.case_cong)

lemma main_path_glob_args:
  "main_path (e\<lparr>asyncGlob := g\<rparr>) (p\<lparr>args := a\<rparr>) path s = main_path e p path s"
  by (simp add: main_path_def loadAndParse_glob main_items_args
      cong: prod.case_cong sum.case_cong)

lemma main_paths_glob_args:
  "main_paths (e\<lparr>asyncGlob := g\<rparr>) (p\<lparr>args := a\<rparr>) paths s = main_paths e p paths s"
  by (induction paths arbitrary: s) (simp_all add: main_path_glob_args)

lemma finalTranslations_glob_args:
  "finalTranslations (e\<lparr>asyncGlob := g\<rparr>) (p\<lparr>args := a\<rparr>) s = finalTranslations e p s"
  by (simp add: finalTranslations_def sortTranslations_def)

lemma main_paths_skip:
  assumes "\<And>s. main_path e p path s = (w, Inr s)"
  shows "main_paths e p (ps1 @ path # ps2) s0 =
     (case main_paths e p ps1 s0 of
        (out1, Inl err) \<Rightarrow> (out1, Inl err)
      | (out1, Inr s1) \<Rightarrow>
          (case main_paths e p ps2 s1 of (out2, r) \<Rightarrow> (out1 @ w @ out2, r)))"
  by (simp add: main_paths_append assms split: prod.splits sum.splits)

lemma main_of_paths:
  "expandGlobPatterns e (args p) = paths \<Longrightarrow>
   main e p =
     (case main_paths e p paths [] of
        (out, Inl err) \<Rightarrow> (out, Inl err)
      | (out, Inr allItems) \<Rightarrow>
          (out, Inr \<lparr>language = ''EN'', translations = finalTranslations e p allItems\<rparr>))"
  by (simp add: main_def)

lemma main_md5_of_paths:
  "expandGlobPatterns e (args p) = paths \<Longrightarrow>
   main_md5 e p =
     (case main_paths e p paths [] of
        (out, Inl err) \<Rightarrow> (out, Inl err)
      | (out, Inr allItems) \<Rightarrow>
          (out @ (if md5Check p then md5_pass e (finalTranslations e p allItems) else []),
           Inr \<lparr>language = ''EN'', translations = finalTranslations e p allItems\<rparr>))"
  by (simp add: main_md5_def Let_def)

lemma main_path_load_failure:
  assumes "readFile e path = Inl msg \<or>
    (\<exists>buffer. readFile e path = Inr buffer \<and> JSON_parse e buffer = Inl msg)"
  shows "main_path e p path s =
     (if ignoreErrors p then ([''Warning: '' @ load_message path msg], Inr s)
      else ([], Inl (Error (load_message path msg))))"
  using assms by (auto simp: main_path_def loadAndParse_def translations_of_def)

lemma md5_pass_glob: "md5_pass (e\<lparr>asyncGlob := g\<rparr>) ts = md5_pass e ts"
  by (simp add: md5_pass_def hash_mismatch_def)

lemma main_path_no_translations:
  assumes "readFile e path = Inr buffer" and "JSON_parse e buffer = Inr v"
    and "case v of JSON_object t \<Rightarrow> \<not> truthy_value t | _ \<Rightarrow> True"
  shows "main_path e p path s = ([], Inr s)"
  using assms
  by (cases v) (simp_all add: main_path_def loadAndParse_def translations_of_def)

section \<open>Conflicting values\<close>

text \<open>
  Let a run reach an item (the files \<open>ps1\<close> and the items \<open>is1\<close> of the file
  \<open>path\<close> have been merged without an abort) whose key is an own property of
  \<open>allItems\<close>, stored with a different value. The stored value is the value of the
  first item with this key. Without \<open>ignoreErrors\<close>, \<open>main\<close> rejects at that point
  with the error whose message holds the key, the stored value, the new value and the
  file of the new value. With \<open>ignoreErrors\<close>, the warning with the same text is
  written, and whenever the run completes the output holds exactly one entry for the
  key, with the stored value.
\<close>

lemma own_key_conflict:
  assumes paths: "expandGlobPatterns e (args p) = ps1 @ path # ps2"
    and before: "main_paths e p ps1 [] = (out1, Inr s1)"
    and rd: "readFile e path = Inr buffer"
    and parse: "JSON_parse e buffer = Inr (JSON_object (Array (is1 @ item # is2)))"
    and within: "main_items p path is1 s1 = (out2, Inr s)"
    and seen: "map_of s (key item) = Some existing"
    and differ: "value existing \<noteq> value item"
  shows "(\<exists>first. find (\<lambda>i. key i = key item) (all_items e ps1 @ is1) = Some first \<and>
            value first = value existing) \<and>
         (\<not> ignoreErrors p \<longrightarrow>
            main e p =
              (out1 @ out2,
               Inl (Error
                 (''Found duplicate keys with different values:\<newline>'' @
                  ''Key: '' @ key item @ ''\<newline>'' @
                  ''Value 1: '' @ value existing @ ''\<newline>'' @
                  ''Value 2: '' @ value item @ '' (in file '' @ path @ '')'')))) \<and>
         (ignoreErrors p \<longrightarrow>
            (\<exists>out3. fst (main e p) =
               out1 @ out2 @
               (''Warning: '' @
                  ''Found duplicate keys with different values:\<newline>'' @
                  ''Key: '' @ key item @ ''\<newline>'' @
                  ''Value 1: '' @ value existing @ ''\<newline>'' @
                  ''Value 2: '' @ value item @ '' (in file '' @ path @ '')'') # out3) \<and>
            (\<forall>doc. snd (main e p) = Inr doc \<longrightarrow>
               (\<exists>x'. filter (\<lambda>t. key t = key item) (translations doc) = [x'] \<and>
                  value x' = value existing)))"
proof (intro conjI impI allI)
  let ?msg = "''Found duplicate keys with different values:\<newline>'' @
      ''Key: '' @ key item @ ''\<newline>'' @
      ''Value 1: '' @ value existing @ ''\<newline>'' @
      ''Value 2: '' @ value item @ '' (in file '' @ path @ '')''"
  have msg: "conflict_message (key item) (value existing) (value item) path = ?msg"
    by (simp only: conflict_message_def)
  note split = run_split [OF before rd parse within, of ps2]
  from reached_first_seen [OF before within seen]
  show "\<exists>first. find (\<lambda>i. key i = key item) (all_items e ps1 @ is1) = Some first \<and>
      value first = value existing"
    by auto
  {
    assume strict: "\<not> ignoreErrors p"
    have "main_item p path item s = ([], Inl (Error ?msg))"
      using strict unfolding msg [symmetric]
      by (simp add: main_item_conflict [OF seen differ] conflict_def)
    then have "main_paths e p (ps1 @ path # ps2) [] = (out1 @ out2, Inl (Error ?msg))"
      by (simp add: split)
    then show "main e p = (out1 @ out2, Inl (Error ?msg))"
      using paths by (simp add: main_Inl)
  }
  {
    assume lenient: "ignoreErrors p"
    have step: "main_item p path item s = ([''Warning: '' @ ?msg], Inr s)"
      using lenient unfolding msg [symmetric]
      by (simp add: main_item_conflict [OF seen differ] conflict_def)
    show "\<exists>out3. fst (main e p) = out1 @ out2 @ (''Warning: '' @ ?msg) # out3"
      by (auto simp: fst_main paths split step split: prod.splits sum.splits)
    fix doc
    assume fin: "snd (main e p) = Inr doc"
    from reached_entry_final [OF paths before rd parse within seen fin]
    show "\<exists>x'. filter (\<lambda>t. key t = key item) (translations doc) = [x'] \<and>
            value x' = value existing"
      by (auto simp: kept_def)
  }
qed

text \<open>
  The variant without options has no strict mode: for such an item it writes a warning
  that holds neither the key nor the values nor the file, and leaves \<open>allItems\<close> as it
  is. What it returns is what the lenient run without \<open>sort\<close> and \<open>mergeContext\<close>
  returns (\<open>main_index_result\<close>).
\<close>

lemma own_key_conflict_index:
  assumes "map_of s (key item) = Some existing" and "value existing \<noteq> value item"
  shows "main_item_index item s =
     ([''Warning: Found duplicate keys with different values:\<newline>  ''], Inr s)"
  using assms by (simp add: main_item_index_def get_def)

text \<open>
  \<open>own_key_conflict\<close> at \<open>a.json\<close> and \<open>b.json\<close>, where \<open>b.json\<close> gives \<open>k2\<close> the
  value \<open>Adieu\<close> after \<open>a.json\<close> gave it \<open>Bye\<close>: the strict run ends with the error,
  the lenient run keeps \<open>Bye\<close>.
\<close>

lemma own_key_conflict_example:
  "main (example_env greeting_files) (example_program False False True [''a.json'', ''b.json'']) =
     ([''Pulled context from duplicate entry into k1: greeting''],
      Inl (Error ''Found duplicate keys with different values:\<newline>Key: k2\<newline>Value 1: Bye\<newline>Value 2: Adieu (in file b.json)'')) \<and>
   (\<exists>x'. filter (\<lambda>t. key t = ''k2'')
           (translations \<lparr>language = ''EN'', translations =
              [entry ''k1'' ''Hello'' (Some ''greeting''), entry ''k2'' ''Bye'' None]\<rparr>) = [x'] \<and>
         value x' = ''Bye'') \<and>
   snd (main (example_env greeting_files)
          (example_program True False True [''a.json'', ''b.json''])) =
     Inr \<lparr>language = ''EN'', translations =
       [entry ''k1'' ''Hello'' (Some ''greeting''), entry ''k2'' ''Bye'' None]\<rparr>"
proof -
  define e where "e = example_env greeting_files"
  define x1 where "x1 = entry ''k1'' ''Hello'' (Some '''')"
  define x2 where "x2 = entry ''k2'' ''Bye'' None"
  define y1 where "y1 = entry ''k1'' ''Hello'' (Some ''greeting'')"
  define y2 where "y2 = entry ''k2'' ''Adieu'' (Some ''x'')"
  define s where "s = [(''k1'', y1), (''k2'', x2)]"
  note defs = e_def x1_def x2_def y1_def y2_def s_def run_defs greeting_files_def
  have rd: "readFile e ''b.json'' = Inr ''b.json''"
    by (simp add: defs)
  have parse: "JSON_parse e ''b.json'' = Inr (JSON_object (Array ([y1] @ y2 # [])))"
    by (simp add: defs)
  have seen: "map_of s (key y2) = Some x2"
    by (simp add: defs)
  have differ: "value x2 \<noteq> value y2"
    by (simp add: defs)
  {
    fix ignore
    define p where "p = example_program ignore False True [''a.json'', ''b.json'']"
    have paths: "expandGlobPatterns e (args p) = [''a.json''] @ ''b.json'' # []"
      by (simp add: p_def defs)
    have before: "main_paths e p [''a.json''] [] = ([], Inr [(''k1'', x1), (''k2'', x2)])"
      by (simp add: p_def defs)
    have within: "main_items p ''b.json'' [y1] [(''k1'', x1), (''k2'', x2)] =
        ([''Pulled context from duplicate entry into k1: greeting''], Inr s)"
      by (simp add: p_def defs)
    note own_key_conflict [OF paths before rd parse within seen differ]
  }
  note inst = this
  have fin: "snd (main e (example_program True False True [''a.json'', ''b.json''])) =
      Inr \<lparr>language = ''EN'', translations = [y1, x2]\<rparr>"
    by (simp add: defs)
  from inst [of False, THEN conjunct2] have strict:
    "main e (example_program False False True [''a.json'', ''b.json'']) =
       ([''Pulled context from duplicate entry into k1: greeting''],
        Inl (Error ''Found duplicate keys with different values:\<newline>Key: k2\<newline>Value 1: Bye\<newline>Value 2: Adieu (in file b.json)''))"
    by (simp add: example_program_def x2_def y2_def entry_def)
  from inst [of True, THEN conjunct2] fin have lenient:
    "\<exists>x'. filter (\<lambda>t. key t = ''k2'')
        (translations \<lparr>language = ''EN'', translations = [y1, x2]\<rparr>) = [x'] \<and>
        value x' = ''Bye''"
    by (simp add: example_program_def x2_def y2_def entry_def)
  from strict lenient fin show ?thesis
    by (simp only: e_def y1_def x2_def)
qed

text \<open>
  Claim C1. The claim has, for every entry whose key was already seen with a different
  value, the strict run abort with an error that names both values and the file of the
  second, and the lenient run keep the first-seen value and write the same details. A
  key that is a property name of \<open>Object.prototype\<close> is never stored: \<open>allItems[key]\<close>
  is the inherited property, which has no \<open>value\<close>. The files \<open>first.json\<close> and
  \<open>second.json\<close> give the key \<open>toString\<close> the values \<open>A\<close> and \<open>B\<close>. The strict run
  rejects at the entry of \<open>first.json\<close>, before a second value is met, with an error
  whose first value is \<open>undefined\<close>. The lenient run writes two warnings, neither of
  which names \<open>A\<close> and \<open>B\<close> together, and completes with no entry for the key. The
  variant without options writes two warnings without any details and has no entry for
  the key either.
\<close>

theorem inherited_key_conflict:
  "main (example_env inherited_conflict_files)
     (example_program False True True [''first.json'', ''second.json'']) =
     ([], Inl (Error ''Found duplicate keys with different values:\<newline>Key: toString\<newline>Value 1: undefined\<newline>Value 2: A (in file first.json)'')) \<and>
   main (example_env inherited_conflict_files)
     (example_program True True True [''first.json'', ''second.json'']) =
     ([''Warning: Found duplicate keys with different values:\<newline>Key: toString\<newline>Value 1: undefined\<newline>Value 2: A (in file first.json)'',
       ''Warning: Found duplicate keys with different values:\<newline>Key: toString\<newline>Value 1: undefined\<newline>Value 2: B (in file second.json)''],
      Inr \<lparr>language = ''EN'', translations = []\<rparr>) \<and>
   main_index (example_env inherited_conflict_files) [''first.json'', ''second.json''] =
     ([''Warning: Found duplicate keys with different values:\<newline>  '',
       ''Warning: Found duplicate keys with different values:\<newline>  ''],
      Inr \<lparr>language = ''EN'', translations = []\<rparr>) \<and>
   all_items (example_env inherited_conflict_files) [''first.json'', ''second.json''] =
     [entry ''toString'' ''A'' (Some ''''), entry ''toString'' ''B'' (Some '''')]"
  by (simp add: run_defs inherited_conflict_files_def all_items_def file_items_def)

section \<open>Pulling a context from a duplicate\<close>

text \<open>
  Let a run reach an item with the non-empty context \<open>c\<close> whose key is an own
  property of \<open>allItems\<close>, stored with an empty (or no) context: no earlier item has
  filled it. Let the run complete. If the item has the stored value, the one output
  entry for the key has the context \<open>c\<close> when \<open>mergeContext\<close> is set (later contexts
  do not replace it), and the stored, empty context when it is not. If the item has
  another value, its context is not taken: the output entry has the stored context or
  the non-empty context of a later item with the stored value.
\<close>

lemma own_key_context_backfill:
  assumes paths: "expandGlobPatterns e (args p) = ps1 @ path # ps2"
    and before: "main_paths e p ps1 [] = (out1, Inr s1)"
    and rd: "readFile e path = Inr buffer"
    and parse: "JSON_parse e buffer = Inr (JSON_object (Array (is1 @ item # is2)))"
    and within: "main_items p path is1 s1 = (out2, Inr s)"
    and seen: "map_of s (key item) = Some existing"
    and empty: "\<not> truthy (context existing)"
    and ctx: "context item = Some c" "c \<noteq> []"
    and fin: "snd (main e p) = Inr doc"
  shows "\<exists>x'. filter (\<lambda>t. key t = key item) (translations doc) = [x'] \<and>
           value x' = value existing \<and>
           (value existing = value item \<longrightarrow>
              context x' = (if mergeContext p then Some c else context existing)) \<and>
           (value existing \<noteq> value item \<longrightarrow>
              context x' = context existing \<or>
              list_ex (\<lambda>i. key i = key item \<and> value i = value existing \<and>
                  truthy (context i) \<and> context x' = context i)
                (is2 @ all_items e ps2))"
proof -
  have kx: "key existing = key item"
    by (rule own_ok_key [OF reached_own_ok [OF before within] seen])
  have parse0: "JSON_parse e buffer = Inr (JSON_object (Array (is1 @ (item # is2))))"
    using parse by simp
  from reached_entry_pulled [OF paths before rd parse0 within seen fin] obtain x' where
    x': "filter (\<lambda>t. key t = key item) (translations doc) = [x']"
      "kept p existing x'"
      "pulled ((item # is2) @ all_items e ps2) existing x'"
    by blast
  have pos: "context x' = (if mergeContext p then Some c else context existing)"
    if same: "value existing = value item"
  proof -
    let ?next = "if mergeContext p
      then AList.update (key item) (existing\<lparr>context := Some c\<rparr>) s else s"
    let ?x = "if mergeContext p then existing\<lparr>context := Some c\<rparr> else existing"
    have "\<exists>out3. main_item p path item s = (out3, Inr ?next)"
      using seen same empty ctx by (simp add: main_item_def get_def truthy_def)
    then obtain out3 where "main_item p path item s = (out3, Inr ?next)" ..
    with within have within':
      "main_items p path (is1 @ [item]) s1 = (out2 @ out3, Inr ?next)"
      by (simp add: main_items_append)
    have parse': "JSON_parse e buffer = Inr (JSON_object (Array ((is1 @ [item]) @ is2)))"
      using parse by simp
    have stored: "map_of ?next (key item) = Some ?x"
      using seen by (simp add: update_conv')
    from reached_entry_final [OF paths before rd parse' within' stored fin] x'(1)
    have "kept p ?x x'" by simp
    then have "context x' = context ?x"
      using ctx by (auto simp: kept_def truthy_def split: if_splits)
    then show ?thesis by (simp split: if_splits)
  qed
  have neg: "context x' = context existing \<or>
      list_ex (\<lambda>i. key i = key item \<and> value i = value existing \<and>
          truthy (context i) \<and> context x' = context i)
        (is2 @ all_items e ps2)"
    if "value existing \<noteq> value item"
    using x'(3) that kx by (auto simp: pulled_def)
  from x'(1,2) pos neg show ?thesis by (auto simp: kept_def)
qed

text \<open>
  \<open>own_key_context_backfill\<close> at the two files of the specification's example:
  \<open>a.json\<close> has \<open>k1\<close> with the empty context, \<open>b.json\<close> has it with the context
  \<open>greeting\<close>.
\<close>

lemma own_key_context_backfill_example:
  "(\<exists>x'. filter (\<lambda>t. key t = ''k1'')
          [entry ''k1'' ''Hello'' (Some ''greeting''), entry ''k2'' ''Bye'' None] = [x'] \<and>
        value x' = ''Hello'' \<and> context x' = Some ''greeting'') \<and>
   snd (main (example_env greeting_files)
          (example_program True False True [''a.json'', ''b.json''])) =
     Inr \<lparr>language = ''EN'', translations =
       [entry ''k1'' ''Hello'' (Some ''greeting''), entry ''k2'' ''Bye'' None]\<rparr> \<and>
   (\<exists>x'. filter (\<lambda>t. key t = ''k1'')
          [entry ''k1'' ''Hello'' (Some ''''), entry ''k2'' ''Bye'' None] = [x'] \<and>
        value x' = ''Hello'' \<and> context x' = Some '''') \<and>
   snd (main (example_env greeting_files)
          (example_program True False False [''a.json'', ''b.json''])) =
     Inr \<lparr>language = ''EN'', translations =
       [entry ''k1'' ''Hello'' (Some ''''), entry ''k2'' ''Bye'' None]\<rparr>"
proof -
  define e where "e = example_env greeting_files"
  define x1 where "x1 = entry ''k1'' ''Hello'' (Some '''')"
  define x2 where "x2 = entry ''k2'' ''Bye'' None"
  define y1 where "y1 = entry ''k1'' ''Hello'' (Some ''greeting'')"
  define y2 where "y2 = entry ''k2'' ''Adieu'' (Some ''x'')"
  define s where "s = [(''k1'', x1), (''k2'', x2)]"
  note defs = e_def x1_def x2_def y1_def y2_def s_def run_defs greeting_files_def
  have rd: "readFile e ''b.json'' = Inr ''b.json''"
    by (simp add: defs)
  have parse: "JSON_parse e ''b.json'' = Inr (JSON_object (Array ([] @ y1 # [y2])))"
    by (simp add: defs)
  have seen: "map_of s (key y1) = Some x1"
    by (simp add: defs)
  have same: "value x1 = value y1"
    by (simp add: defs)
  have empty: "\<not> truthy (context x1)"
    by (simp add: defs)
  have ctx: "context y1 = Some ''greeting''" "''greeting'' \<noteq> []"
    by (simp_all add: defs)
  {
    fix mergeCtx doc
    define p where "p = example_program True False mergeCtx [''a.json'', ''b.json'']"
    assume fin: "snd (main e p) = Inr doc"
    have paths: "expandGlobPatterns e (args p) = [''a.json''] @ ''b.json'' # []"
      by (simp add: p_def defs)
    have before: "main_paths e p [''a.json''] [] = ([], Inr s)"
      by (simp add: p_def defs)
    have within: "main_items p ''b.json'' [] s = ([], Inr s)"
      by simp
    note own_key_context_backfill [OF paths before rd parse within seen empty ctx fin]
  }
  note inst = this
  have on: "snd (main e (example_program True False True [''a.json'', ''b.json''])) =
      Inr \<lparr>language = ''EN'', translations = [y1, x2]\<rparr>"
    by (simp add: defs)
  have off: "snd (main e (example_program True False False [''a.json'', ''b.json''])) =
      Inr \<lparr>language = ''EN'', translations = [x1, x2]\<rparr>"
    by (simp add: defs)
  from inst [OF on] have a:
    "\<exists>x'. filter (\<lambda>t. key t = ''k1'') [y1, x2] = [x'] \<and>
       value x' = ''Hello'' \<and> context x' = Some ''greeting''"
    by (simp add: example_program_def x1_def y1_def entry_def)
  from inst [OF off] have b:
    "\<exists>x'. filter (\<lambda>t. key t = ''k1'') [x1, x2] = [x'] \<and>
       value x' = ''Hello'' \<and> context x' = Some ''''"
    by (simp add: example_program_def x1_def y1_def entry_def)
  from a b on off show ?thesis
    by (simp only: e_def y1_def x1_def x2_def)
qed

text \<open>
  Claim C2. The claim has, for every pair of entries with equal key and equal value of
  which the first has an empty context and a later one the context \<open>C\<close>, a merged
  entry whose context is \<open>C\<close> with \<open>mergeContext\<close> and empty without it. The files
  \<open>x.json\<close> and \<open>y.json\<close> hold such a pair for the key \<open>valueOf\<close>.
  \<open>allItems[key]\<close> is the inherited \<open>Object.prototype.valueOf\<close>, so each of the two
  entries is taken for a duplicate with a different value and neither is stored: the
  lenient run, with \<open>mergeContext\<close> and without it, writes two warnings and completes
  with no merged entry, and the strict run rejects at the first entry.
\<close>

theorem inherited_key_context_lost:
  "main (example_env inherited_context_files)
     (example_program True True True [''x.json'', ''y.json'']) =
     ([''Warning: Found duplicate keys with different values:\<newline>Key: valueOf\<newline>Value 1: undefined\<newline>Value 2: Same (in file x.json)'',
       ''Warning: Found duplicate keys with different values:\<newline>Key: valueOf\<newline>Value 1: undefined\<newline>Value 2: Same (in file y.json)''],
      Inr \<lparr>language = ''EN'', translations = []\<rparr>) \<and>
   main (example_env inherited_context_files)
     (example_program True True False [''x.json'', ''y.json'']) =
     ([''Warning: Found duplicate keys with different values:\<newline>Key: valueOf\<newline>Value 1: undefined\<newline>Value 2: Same (in file x.json)'',
       ''Warning: Found duplicate keys with different values:\<newline>Key: valueOf\<newline>Value 1: undefined\<newline>Value 2: Same (in file y.json)''],
      Inr \<lparr>language = ''EN'', translations = []\<rparr>) \<and>
   main (example_env inherited_context_files)
     (example_program False True True [''x.json'', ''y.json'']) =
     ([], Inl (Error ''Found duplicate keys with different values:\<newline>Key: valueOf\<newline>Value 1: undefined\<newline>Value 2: Same (in file x.json)'')) \<and>
   all_items (example_env inherited_context_files) [''x.json'', ''y.json''] =
     [entry ''valueOf'' ''Same'' (Some ''''), entry ''valueOf'' ''Same'' (Some ''C'')]"
  by (simp add: run_defs inherited_context_files_def all_items_def file_items_def)

section \<open>Stored keys and values are never changed\<close>

text \<open>
  Claim C9. Let a run have an entry \<open>x\<close> stored under \<open>k\<close> at some point (after the
  files \<open>ps1\<close> and the items \<open>is1\<close> of the next file). If the run completes, in either
  variant of \<open>main\<close> with options, the output holds exactly one entry for \<open>k\<close>; it has
  the key and the value of \<open>x\<close>, and the context of \<open>x\<close> unless that was empty,
  \<open>mergeContext\<close> is set and the output context is the non-empty context of a later
  item with the key and the value of \<open>x\<close>.
\<close>

theorem stored_key_value_frame:
  assumes paths: "expandGlobPatterns e (args p) = ps1 @ path # ps2"
    and before: "main_paths e p ps1 [] = (out1, Inr s1)"
    and rd: "readFile e path = Inr buffer"
    and parse: "JSON_parse e buffer = Inr (JSON_object (Array (is1 @ is2)))"
    and within: "main_items p path is1 s1 = (out2, Inr s)"
    and stored: "map_of s k = Some x"
    and fin: "snd (main e p) = Inr doc \<or> snd (main_md5 e p) = Inr doc"
  shows "\<exists>x'. filter (\<lambda>t. key t = k) (translations doc) = [x'] \<and>
           key x' = key x \<and> value x' = value x \<and>
           (context x' = context x \<or>
            mergeContext p \<and> \<not> truthy (context x) \<and> truthy (context x') \<and>
            list_ex (\<lambda>i. key i = key x \<and> value i = value x \<and> context i = context x')
              (is2 @ all_items e ps2))"
proof -
  from fin have "snd (main e p) = Inr doc" by (simp add: snd_main_md5)
  from reached_entry_pulled [OF paths before rd parse within stored this]
  show ?thesis by (auto simp: kept_def pulled_def list_ex_iff)
qed

text \<open>
  The theorem at the entry \<open>k2\<close> of \<open>a.json\<close>, which the conflicting \<open>k2\<close> of
  \<open>b.json\<close> leaves as it is.
\<close>

theorem stored_key_value_frame_witness:
  "snd (main_md5 (example_env greeting_files)
          (example_program True True True [''a.json'', ''b.json''])) =
     Inr \<lparr>language = ''EN'', translations =
       [entry ''k1'' ''Hello'' (Some ''greeting''), entry ''k2'' ''Bye'' None]\<rparr> \<and>
   (\<exists>x'. filter (\<lambda>t. key t = ''k2'')
          [entry ''k1'' ''Hello'' (Some ''greeting''), entry ''k2'' ''Bye'' None] = [x'] \<and>
        key x' = ''k2'' \<and> value x' = ''Bye'' \<and> context x' = None)"
proof -
  define e where "e = example_env greeting_files"
  define p where "p = example_program True True True [''a.json'', ''b.json'']"
  define x1 where "x1 = entry ''k1'' ''Hello'' (Some '''')"
  define x2 where "x2 = entry ''k2'' ''Bye'' None"
  define y1 where "y1 = entry ''k1'' ''Hello'' (Some ''greeting'')"
  define s where "s = [(''k1'', x1), (''k2'', x2)]"
  note defs = e_def p_def x1_def x2_def y1_def s_def run_defs greeting_files_def
  have paths: "expandGlobPatterns e (args p) = [] @ ''a.json'' # [''b.json'']"
    by (simp add: defs)
  have before: "main_paths e p [] [] = ([], Inr [])"
    by simp
  have rd: "readFile e ''a.json'' = Inr ''a.json''"
    by (simp add: defs)
  have parse: "JSON_parse e ''a.json'' = Inr (JSON_object (Array ([x1, x2] @ [])))"
    by (simp add: defs)
  have within: "main_items p ''a.json'' [x1, x2] [] = ([], Inr s)"
    by (simp add: defs)
  have stored: "map_of s ''k2'' = Some x2"
    by (simp add: defs)
  have fin: "snd (main_md5 e p) = Inr \<lparr>language = ''EN'', translations = [y1, x2]\<rparr>"
    by (simp add: defs)
  from stored_key_value_frame [OF paths before rd parse within stored disjI2 [OF fin]]
  have "\<exists>x'. filter (\<lambda>t. key t = ''k2'') [y1, x2] = [x'] \<and>
      key x' = ''k2'' \<and> value x' = ''Bye'' \<and> context x' = None"
    by (auto simp: x2_def y1_def entry_def truthy_def)
  with fin show ?thesis
    by (simp only: e_def p_def y1_def x2_def)
qed

section \<open>Files that cannot be loaded\<close>

text \<open>
  Claim C5. Let \<open>path\<close> be one of the paths and let reading it, or parsing what was
  read, fail with the message \<open>msg\<close>. Without \<open>ignoreErrors\<close> the run rejects, and
  when the files before \<open>path\<close> were merged without an abort it rejects with the
  load error of \<open>path\<close>. With \<open>ignoreErrors\<close> the file writes one warning and
  leaves \<open>allItems\<close> as it is, and the run has the result of the run on the
  remaining paths; its diagnostics are those of that run with the warning added after
  those of the files before \<open>path\<close>.
\<close>

theorem load_failure:
  assumes paths: "expandGlobPatterns e (args p) = ps1 @ path # ps2"
    and fails: "readFile e path = Inl msg \<or>
      (\<exists>buffer. readFile e path = Inr buffer \<and> JSON_parse e buffer = Inl msg)"
  shows "(\<not> ignoreErrors p \<longrightarrow>
            (\<exists>out err. main e p = (out, Inl err)) \<and>
            (\<forall>out1 s1. main_paths e p ps1 [] = (out1, Inr s1) \<longrightarrow>
               main e p = (out1, Inl (Error (load_message path msg))))) \<and>
         (ignoreErrors p \<longrightarrow>
            (\<forall>s. main_path e p path s = ([''Warning: '' @ load_message path msg], Inr s)) \<and>
            (\<forall>g a. expandGlobPatterns (e\<lparr>asyncGlob := g\<rparr>) a = ps1 @ ps2 \<longrightarrow>
               snd (main (e\<lparr>asyncGlob := g\<rparr>) (p\<lparr>args := a\<rparr>)) = snd (main e p) \<and>
               (\<forall>out1 s1. main_paths e p ps1 [] = (out1, Inr s1) \<longrightarrow>
                  (\<exists>rest.
                     fst (main e p) = out1 @ (''Warning: '' @ load_message path msg) # rest \<and>
                     fst (main (e\<lparr>asyncGlob := g\<rparr>) (p\<lparr>args := a\<rparr>)) = out1 @ rest))))"
proof (intro conjI impI allI)
  note fail = main_path_load_failure [OF fails, of p]
  {
    assume strict: "\<not> ignoreErrors p"
    show "\<exists>out err. main e p = (out, Inl err)"
      using strict
      by (auto simp: main_of_paths [OF paths] main_paths_append fail split: prod.splits sum.splits)
    fix out1 s1
    assume "main_paths e p ps1 [] = (out1, Inr s1)"
    then show "main e p = (out1, Inl (Error (load_message path msg)))"
      using strict by (simp add: main_of_paths [OF paths] main_paths_append fail)
  }
  {
    assume lenient: "ignoreErrors p"
    fix s
    show "main_path e p path s = ([''Warning: '' @ load_message path msg], Inr s)"
      using lenient by (simp add: fail)
  }
  {
    assume lenient: "ignoreErrors p"
    fix g a
    assume paths': "expandGlobPatterns (e\<lparr>asyncGlob := g\<rparr>) a = ps1 @ ps2"
    then have paths'': "expandGlobPatterns (e\<lparr>asyncGlob := g\<rparr>) (args (p\<lparr>args := a\<rparr>)) = ps1 @ ps2"
      by simp
    have skip: "\<And>s. main_path e p path s = ([''Warning: '' @ load_message path msg], Inr s)"
      using lenient by (simp add: fail)
    show "snd (main (e\<lparr>asyncGlob := g\<rparr>) (p\<lparr>args := a\<rparr>)) = snd (main e p)"
      by (auto simp: main_of_paths [OF paths] main_of_paths [OF paths''] main_paths_glob_args
          finalTranslations_glob_args skip main_paths_append
          split: prod.splits sum.splits)
    fix out1 s1
    assume "main_paths e p ps1 [] = (out1, Inr s1)"
    then show "\<exists>rest.
        fst (main e p) = out1 @ (''Warning: '' @ load_message path msg) # rest \<and>
        fst (main (e\<lparr>asyncGlob := g\<rparr>) (p\<lparr>args := a\<rparr>)) = out1 @ rest"
      by (auto simp: main_of_paths [OF paths] main_of_paths [OF paths''] main_paths_glob_args
          finalTranslations_glob_args skip main_paths_append
          split: prod.splits sum.splits)
  }
qed

text \<open>
  The theorem at a file with malformed JSON in a strict run, and at a path that does
  not exist in a lenient run.
\<close>

theorem load_failure_witness:
  "main (example_env odd_files)
     (example_program False True True [''a.json'', ''bad.json'', ''b.json'']) =
     ([], Inl (Error ''Couldn't load JSON from bad.json: Unexpected token } in JSON at position 1'')) \<and>
   main_path (example_env odd_files)
     (example_program True True True [''a.json'', ''missing.json'', ''b.json''])
     ''missing.json'' [] =
     ([''Warning: Couldn't load JSON from missing.json: ENOENT: no such file or directory''],
      Inr []) \<and>
   snd (main (example_env odd_files)
          (example_program True True True [''a.json'', ''missing.json'', ''b.json''])) =
   snd (main (example_env odd_files) (example_program True True True [''a.json'', ''b.json'']))"
proof -
  define e where "e = example_env odd_files"
  note defs = e_def run_defs odd_files_def greeting_files_def
  have glob: "e\<lparr>asyncGlob := \<lambda>pattern. [pattern]\<rparr> = e"
    by (simp add: e_def example_env_def)
  have upd: "\<And>ignore srt m a b. (example_program ignore srt m a)\<lparr>args := b\<rparr> =
      example_program ignore srt m b"
    by (simp add: example_program_def)
  have paths1: "expandGlobPatterns e
      (args (example_program False True True [''a.json'', ''bad.json'', ''b.json''])) =
      [''a.json''] @ ''bad.json'' # [''b.json'']"
    by (simp add: defs)
  have fails1: "readFile e ''bad.json'' = Inl ''Unexpected token } in JSON at position 1'' \<or>
      (\<exists>buffer. readFile e ''bad.json'' = Inr buffer \<and>
         JSON_parse e buffer = Inl ''Unexpected token } in JSON at position 1'')"
    by (simp add: defs)
  have before1: "main_paths e (example_program False True True
        [''a.json'', ''bad.json'', ''b.json'']) [''a.json''] [] =
      ([], Inr [(''k1'', entry ''k1'' ''Hello'' (Some '''')), (''k2'', entry ''k2'' ''Bye'' None)])"
    by (simp add: defs)
  have strict: "\<not> ignoreErrors (example_program False True True
      [''a.json'', ''bad.json'', ''b.json''])"
    by (simp add: example_program_def)
  from load_failure [OF paths1 fails1] strict before1
  have one: "main e (example_program False True True [''a.json'', ''bad.json'', ''b.json'']) =
      ([], Inl (Error (load_message ''bad.json'' ''Unexpected token } in JSON at position 1'')))"
    by blast
  have paths2: "expandGlobPatterns e
      (args (example_program True True True [''a.json'', ''missing.json'', ''b.json''])) =
      [''a.json''] @ ''missing.json'' # [''b.json'']"
    by (simp add: defs)
  have fails2: "readFile e ''missing.json'' = Inl ''ENOENT: no such file or directory'' \<or>
      (\<exists>buffer. readFile e ''missing.json'' = Inr buffer \<and>
         JSON_parse e buffer = Inl ''ENOENT: no such file or directory'')"
    by (simp add: defs)
  have lenient: "ignoreErrors (example_program True True True
      [''a.json'', ''missing.json'', ''b.json''])"
    by (simp add: example_program_def)
  have short: "expandGlobPatterns (e\<lparr>asyncGlob := \<lambda>pattern. [pattern]\<rparr>)
      [''a.json'', ''b.json''] = [''a.json''] @ [''b.json'']"
    by (simp add: defs)
  note inst = load_failure [OF paths2 fails2, THEN conjunct2, rule_format, OF lenient]
  from inst [THEN conjunct1, rule_format, of "[]"]
  have two: "main_path e (example_program True True True
        [''a.json'', ''missing.json'', ''b.json'']) ''missing.json'' [] =
      ([''Warning: '' @ load_message ''missing.json'' ''ENOENT: no such file or directory''],
       Inr [])" .
  from inst [THEN conjunct2, rule_format, OF short, THEN conjunct1]
  have three: "snd (main e (example_program True True True [''a.json'', ''b.json''])) =
      snd (main e (example_program True True True [''a.json'', ''missing.json'', ''b.json'']))"
    by (simp add: glob upd)
  from one two three show ?thesis
    unfolding e_def [symmetric] by (simp add: load_message_def)
qed

section \<open>Files without translations\<close>

text \<open>
  Claim C10, as the code has it. Let the text of \<open>path\<close> parse to \<open>null\<close>, to a
  scalar, to an array, or to an object whose \<open>translations\<close> property is missing or
  falsy (\<open>null\<close>, \<open>false\<close>, \<open>0\<close>, the empty string). Then, in strict and in lenient
  mode, the file writes nothing and leaves \<open>allItems\<close> as it is, and the run
  (diagnostics and result, in each variant of \<open>main\<close>) is the run on the remaining
  paths.
\<close>

theorem no_translations_contributes_nothing:
  assumes paths: "expandGlobPatterns e (args p) = ps1 @ path # ps2"
    and rd: "readFile e path = Inr buffer"
    and parse: "JSON_parse e buffer = Inr v"
    and shape: "case v of JSON_object t \<Rightarrow> \<not> truthy_value t | _ \<Rightarrow> True"
  shows "(\<forall>s. main_path e p path s = ([], Inr s) \<and> main_path_index e path s = ([], Inr s)) \<and>
         (\<forall>g a. expandGlobPatterns (e\<lparr>asyncGlob := g\<rparr>) a = ps1 @ ps2 \<longrightarrow>
            main (e\<lparr>asyncGlob := g\<rparr>) (p\<lparr>args := a\<rparr>) = main e p \<and>
            main_md5 (e\<lparr>asyncGlob := g\<rparr>) (p\<lparr>args := a\<rparr>) = main_md5 e p \<and>
            main_index (e\<lparr>asyncGlob := g\<rparr>) a = main_index e (args p))"
proof (intro conjI impI allI)
  have skip: "\<And>s. main_path e p path s = ([], Inr s)"
    by (rule main_path_no_translations [OF rd parse shape])
  have skip_index: "\<And>s. main_path_index e path s = ([], Inr s)"
    by (rule main_path_index_no_translations [OF rd parse shape])
  fix s
  show "main_path e p path s = ([], Inr s)" by (rule skip)
  show "main_path_index e path s = ([], Inr s)" by (rule skip_index)
  fix g a
  assume short: "expandGlobPatterns (e\<lparr>asyncGlob := g\<rparr>) a = ps1 @ ps2"
  then have paths': "expandGlobPatterns (e\<lparr>asyncGlob := g\<rparr>) (args (p\<lparr>args := a\<rparr>)) = ps1 @ ps2"
    by simp
  have same: "main_paths e p (ps1 @ path # ps2) [] = main_paths e p (ps1 @ ps2) []"
    by (simp add: main_paths_append skip split: prod.splits sum.splits)
  show "main (e\<lparr>asyncGlob := g\<rparr>) (p\<lparr>args := a\<rparr>) = main e p"
    by (simp add: main_of_paths [OF paths] main_of_paths [OF paths'] main_paths_glob_args
        finalTranslations_glob_args same cong: prod.case_cong sum.case_cong)
  show "main_md5 (e\<lparr>asyncGlob := g\<rparr>) (p\<lparr>args := a\<rparr>) = main_md5 e p"
    by (simp add: main_md5_of_paths [OF paths] main_md5_of_paths [OF paths']
        main_paths_glob_args finalTranslations_glob_args md5_pass_glob same
        cong: prod.case_cong sum.case_cong if_cong)
  have same_index:
    "main_paths_index e (ps1 @ path # ps2) [] = main_paths_index e (ps1 @ ps2) []"
    by (simp add: main_paths_index_append skip_index split: prod.splits sum.splits)
  show "main_index (e\<lparr>asyncGlob := g\<rparr>) a = main_index e (args p)"
    by (simp add: main_index_of_paths [OF paths] main_index_of_paths [OF short]
        main_paths_index_glob same_index)
qed

text \<open>The theorem at a file holding \<open>null\<close> and a file holding \<open>{}\<close>.\<close>

theorem no_translations_contributes_nothing_witness:
  "main_path (example_env odd_files)
     (example_program False True True [''a.json'', ''null.json'', ''empty.json''])
     ''null.json'' [(''k'', entry ''k'' ''v'' None)] = ([], Inr [(''k'', entry ''k'' ''v'' None)]) \<and>
   main (example_env odd_files)
     (example_program False True True [''a.json'', ''null.json'', ''empty.json'']) =
   main (example_env odd_files)
     (example_program False True True [''a.json'', ''empty.json'']) \<and>
   main (example_env odd_files) (example_program False True True [''a.json'', ''empty.json'']) =
   main (example_env odd_files) (example_program False True True [''a.json'']) \<and>
   main_index (example_env odd_files) [''a.json'', ''null.json'', ''empty.json''] =
   main_index (example_env odd_files) [''a.json'', ''empty.json'']"
proof -
  define e where "e = example_env odd_files"
  note defs = e_def run_defs odd_files_def greeting_files_def
  have glob: "e\<lparr>asyncGlob := \<lambda>pattern. [pattern]\<rparr> = e"
    by (simp add: e_def example_env_def)
  have upd: "\<And>ignore srt m a b. (example_program ignore srt m a)\<lparr>args := b\<rparr> =
      example_program ignore srt m b"
    by (simp add: example_program_def)
  have paths1: "expandGlobPatterns e
      (args (example_program False True True [''a.json'', ''null.json'', ''empty.json''])) =
      [''a.json''] @ ''null.json'' # [''empty.json'']"
    by (simp add: defs)
  have rd1: "readFile e ''null.json'' = Inr ''null.json''" by (simp add: defs)
  have parse1: "JSON_parse e ''null.json'' = Inr JSON_null" by (simp add: defs)
  have shape1: "case JSON_null of JSON_object t \<Rightarrow> \<not> truthy_value t | _ \<Rightarrow> True" by simp
  have short1: "expandGlobPatterns (e\<lparr>asyncGlob := \<lambda>pattern. [pattern]\<rparr>)
      [''a.json'', ''empty.json''] = [''a.json''] @ [''empty.json'']"
    by (simp add: defs)
  note one = no_translations_contributes_nothing [OF paths1 rd1 parse1 shape1]
  have paths2: "expandGlobPatterns e
      (args (example_program False True True [''a.json'', ''empty.json''])) =
      [''a.json''] @ ''empty.json'' # []"
    by (simp add: defs)
  have rd2: "readFile e ''empty.json'' = Inr ''empty.json''" by (simp add: defs)
  have parse2: "JSON_parse e ''empty.json'' = Inr (JSON_object Undefined)" by (simp add: defs)
  have shape2: "case JSON_object Undefined of JSON_object t \<Rightarrow> \<not> truthy_value t | _ \<Rightarrow> True"
    by simp
  have short2: "expandGlobPatterns (e\<lparr>asyncGlob := \<lambda>pattern. [pattern]\<rparr>) [''a.json''] =
      [''a.json''] @ []"
    by (simp add: defs)
  note two = no_translations_contributes_nothing [OF paths2 rd2 parse2 shape2]
  from one have a: "main_path e
      (example_program False True True [''a.json'', ''null.json'', ''empty.json''])
      ''null.json'' [(''k'', entry ''k'' ''v'' None)] = ([], Inr [(''k'', entry ''k'' ''v'' None)])"
    by blast
  from one [THEN conjunct2, rule_format, OF short1]
  have b: "main e (example_program False True True [''a.json'', ''empty.json'']) =
      main e (example_program False True True [''a.json'', ''null.json'', ''empty.json''])"
    by (simp add: glob upd)
  from two [THEN conjunct2, rule_format, OF short2]
  have c: "main e (example_program False True True [''a.json'']) =
      main e (example_program False True True [''a.json'', ''empty.json''])"
    by (simp add: glob upd)
  from one [THEN conjunct2, rule_format, OF short1]
  have d: "main_index e [''a.json'', ''empty.json''] =
      main_index e [''a.json'', ''null.json'', ''empty.json'']"
    by (simp add: glob example_program_def)
  from a b c d show ?thesis
    unfolding e_def [symmetric] by simp
qed

text \<open>
  The claim as stated also covers an object whose \<open>translations\<close> property is any
  non-array value. For \<open>{"translations": true}\<close> the guard \<open>|| []\<close> does not apply,
  \<open>for ... of\<close> meets a value that is not iterable, and the run rejects with a
  \<open>TypeError\<close> in strict and in lenient mode, and in the variant without options.
\<close>

theorem non_array_translations_counterexample:
  "main (example_env odd_files) (example_program False True True [''a.json'', ''true.json'']) =
     ([], Inl TypeError) \<and>
   main (example_env odd_files) (example_program True True True [''a.json'', ''true.json'']) =
     ([], Inl TypeError) \<and>
   main_index (example_env odd_files) [''a.json'', ''true.json''] = ([], Inl TypeError) \<and>
   JSON_parse (example_env odd_files) ''true.json'' = Inr (JSON_object (Boolean True))"
  by (simp add: run_defs odd_files_def greeting_files_def)

section \<open>The hash check\<close>

lemma main_paths_md5Check:
  "main_paths e (p\<lparr>md5Check := b\<rparr>) paths s = main_paths e p paths s"
proof -
  have item: "\<And>path item s. main_item (p\<lparr>md5Check := b\<rparr>) path item s = main_item p path item s"
    by (simp add: main_item_def conflict_def split: property.splits)
  have items: "\<And>path items s.
      main_items (p\<lparr>md5Check := b\<rparr>) path items s = main_items p path items s"
    subgoal for path items s
      by (induction items arbitrary: s) (simp_all add: item)
    done
  have path: "\<And>path s. main_path e (p\<lparr>md5Check := b\<rparr>) path s = main_path e p path s"
    by (simp add: main_path_def items cong: prod.case_cong sum.case_cong)
  show ?thesis
    by (induction paths arbitrary: s) (simp_all add: path)
qed

lemma main_md5_unchecked: "main_md5 e (p\<lparr>md5Check := False\<rparr>) = main e (p\<lparr>md5Check := False\<rparr>)"
  by (simp add: main_md5_def main_def Let_def cong: prod.case_cong sum.case_cong)

text \<open>
  Claim C6. In the variant with \<open>md5Check\<close>, the run with the check has the result
  of the run without it (the same error, or the same document: the same entries in the
  same order), and its diagnostics are those of the run without the check followed by
  one line for each output entry whose key is not the hash of its value, in output
  order, and by no line for any other entry.
\<close>

theorem md5_check_only_reports:
  "snd (main_md5 e (p\<lparr>md5Check := True\<rparr>)) = snd (main_md5 e (p\<lparr>md5Check := False\<rparr>)) \<and>
   fst (main_md5 e (p\<lparr>md5Check := True\<rparr>)) =
     fst (main_md5 e (p\<lparr>md5Check := False\<rparr>)) @
     (case snd (main_md5 e (p\<lparr>md5Check := False\<rparr>)) of
        Inl err \<Rightarrow> []
      | Inr doc \<Rightarrow>
          map (hash_mismatch e) (filter (\<lambda>t. key t \<noteq> md5 e (value t)) (translations doc)))"
  by (auto simp: main_md5_def Let_def main_paths_md5Check finalTranslations_def md5_pass_def
      split: prod.splits sum.splits)

text \<open>
  The theorem at three entries, two of which have the hash of their value (here its
  reversal) as key.
\<close>

theorem md5_check_only_reports_witness:
  "main_md5 (example_env hash_files) (example_program False True True [''h.json'']) =
     ([''Hash mismatch: string \"Bye\" should have key \"eyB\" but actually has \"k2\"''],
      Inr \<lparr>language = ''EN'', translations =
        [entry ''eybdooG'' ''Goodbye'' None, entry ''k2'' ''Bye'' None,
         entry ''olleH'' ''Hello'' None]\<rparr>) \<and>
   main_md5 (example_env hash_files)
     ((example_program False True True [''h.json''])\<lparr>md5Check := False\<rparr>) =
     ([],
      Inr \<lparr>language = ''EN'', translations =
        [entry ''eybdooG'' ''Goodbye'' None, entry ''k2'' ''Bye'' None,
         entry ''olleH'' ''Hello'' None]\<rparr>)"
proof -
  define e where "e = example_env hash_files"
  define p where "p = example_program False True True [''h.json'']"
  define doc where "doc = \<lparr>language = ''EN'', translations =
        [entry ''eybdooG'' ''Goodbye'' None, entry ''k2'' ''Bye'' None,
         entry ''olleH'' ''Hello'' None]\<rparr>"
  have on: "p\<lparr>md5Check := True\<rparr> = p"
    by (simp add: p_def example_program_def)
  have off: "main_md5 e (p\<lparr>md5Check := False\<rparr>) = ([], Inr doc)"
    by (simp add: e_def p_def doc_def run_defs hash_files_def)
  from md5_check_only_reports [of e p]
  have "snd (main_md5 e p) = Inr doc"
    and "fst (main_md5 e p) =
      map (hash_mismatch e) (filter (\<lambda>t. key t \<noteq> md5 e (value t)) (translations doc))"
    by (simp_all add: on off)
  then have "main_md5 e p =
      (map (hash_mismatch e) (filter (\<lambda>t. key t \<noteq> md5 e (value t)) (translations doc)),
       Inr doc)"
    by (simp add: prod_eq_iff)
  also have "map (hash_mismatch e) (filter (\<lambda>t. key t \<noteq> md5 e (value t)) (translations doc)) =
      [''Hash mismatch: string \"Bye\" should have key \"eyB\" but actually has \"k2\"'']"
    by (simp add: e_def doc_def hash_mismatch_def example_env_def entry_def)
  finally show ?thesis
    using off unfolding e_def p_def doc_def by simp
qed

section \<open>The order of the output\<close>

subsection \<open>Sorting\<close>

lemma set_insort_by: "set (insort_by cmp a bs) = insert a (set bs)"
  by (induction bs) auto

lemma sorted_insort_by:
  assumes "consistent cmp"
    and "sorted_wrt (\<lambda>a b. cmp (key a) (key b) \<le> 0) bs"
  shows "sorted_wrt (\<lambda>a b. cmp (key a) (key b) \<le> 0) (insort_by cmp a bs)"
  using assms(2)
proof (induction bs)
  case Nil
  then show ?case by simp
next
  case (Cons b bs)
  from assms(1) have total: "\<And>x y. cmp x y \<le> 0 \<or> cmp y x \<le> 0"
    and trans: "\<And>x y z. cmp x y \<le> 0 \<Longrightarrow> cmp y z \<le> 0 \<Longrightarrow> cmp x z \<le> 0"
    unfolding consistent_def by blast+
  show ?case
  proof (cases "cmp (key a) (key b) \<le> 0")
    case True
    with Cons.prems show ?thesis by (auto intro: trans)
  next
    case False
    with total [of "key a" "key b"] have "cmp (key b) (key a) \<le> 0" by simp
    with False Cons show ?thesis by (auto simp: set_insort_by)
  qed
qed

lemma sorted_sortTranslations:
  "consistent (localeCompare e) \<Longrightarrow>
   sorted_wrt (\<lambda>a b. localeCompare e (key a) (key b) \<le> 0) (sortTranslations e ts)"
  by (induction ts) (simp_all add: sortTranslations_def sorted_insort_by)

subsection \<open>The order of \<open>Object.values\<close>\<close>

lemma map_fst_insort_key:
  "map fst (insort_key (\<lambda>p. f (fst p)) x xs) = insort_key f (fst x) (map fst xs)"
  by (induction xs) auto

lemma map_fst_sort_key: "map fst (sort_key (\<lambda>p. f (fst p)) xs) = sort_key f (map fst xs)"
  by (induction xs) (simp_all add: map_fst_insort_key)

lemma keys_Object_values:
  assumes "own_ok s"
  shows "map key (Object_values s) = own_keys (map fst s)"
proof -
  let ?xs = "sort_key (\<lambda>p. decimal (fst p)) (filter (\<lambda>p. is_array_index (fst p)) s) @
    filter (\<lambda>p. \<not> is_array_index (fst p)) s"
  have "set ?xs \<subseteq> set s" by auto
  with assms have "\<forall>kv \<in> set ?xs. key (snd kv) = fst kv"
    by (auto simp: own_ok_def list_all_iff)
  then have "map key (map snd ?xs) = map fst ?xs" by (simp add: list_all_iff)
  then show ?thesis
    by (simp add: Object_values_def own_keys_def map_fst_sort_key filter_map comp_def)
qed

lemma consistent_codeUnitCompare: "consistent codeUnitCompare"
  by (auto simp: consistent_def codeUnitCompare_def)

text \<open>
  Claim C3, as the code has it. In a completed run with \<open>sort\<close>, and with a consistent
  \<open>localeCompare\<close>, the keys of the output are non-decreasing under \<open>localeCompare\<close>.
  In a completed run without \<open>sort\<close>, in which no key is a property name of
  \<open>Object.prototype\<close>, the output has the keys that are array indices first, in
  ascending numeric order, and then the other keys in the order in which they were first
  seen; when no key is an array index, that is the order in which the keys were first
  seen.
\<close>

theorem output_order:
  assumes fin: "snd (main e p) = Inr doc"
  shows "(sort_opt p \<longrightarrow> consistent (localeCompare e) \<longrightarrow>
            sorted_wrt (\<lambda>a b. localeCompare e a b \<le> 0) (map key (translations doc))) \<and>
         (\<not> sort_opt p \<longrightarrow>
            list_all (\<lambda>k. k \<notin> set Object_prototype)
              (map key (all_items e (expandGlobPatterns e (args p)))) \<longrightarrow>
            map key (translations doc) =
              own_keys (first_seen (map key (all_items e (expandGlobPatterns e (args p))))) \<and>
            (list_all (\<lambda>k. \<not> is_array_index k)
               (map key (all_items e (expandGlobPatterns e (args p)))) \<longrightarrow>
             map key (translations doc) =
               first_seen (map key (all_items e (expandGlobPatterns e (args p))))))"
proof -
  let ?keys = "map key (all_items e (expandGlobPatterns e (args p)))"
  from main_Inr [OF fin] obtain out s where
    run: "main_paths e p (expandGlobPatterns e (args p)) [] = (out, Inr s)" and
    doc: "doc = \<lparr>language = ''EN'', translations = finalTranslations e p s\<rparr>"
    by blast
  have ok: "own_ok s" by (rule main_paths_own_ok [OF run own_ok_Nil])
  have sorted: "sorted_wrt (\<lambda>a b. localeCompare e a b \<le> 0) (map key (translations doc))"
    if "sort_opt p" "consistent (localeCompare e)"
    using that sorted_sortTranslations [of e "Object_values s"]
    by (simp add: doc finalTranslations_def sorted_wrt_map)
  have keys: "map fst s = first_seen ?keys"
    if "list_all (\<lambda>k. k \<notin> set Object_prototype) ?keys"
  proof -
    from that have "filter (\<lambda>k. k \<notin> set Object_prototype) ?keys = ?keys"
      by (simp add: list_all_iff)
    with main_paths_keys [OF run] show ?thesis
      by (simp add: foldl_Set_add_first_seen)
  qed
  have plain: "own_keys ks = ks" if "list_all (\<lambda>k. \<not> is_array_index k) ks" for ks
  proof -
    from that have "filter is_array_index ks = []" "filter (\<lambda>k. \<not> is_array_index k) ks = ks"
      by (simp_all add: list_all_iff filter_empty_conv)
    then show ?thesis by (simp add: own_keys_def)
  qed
  have unsorted: "map key (translations doc) = own_keys (first_seen ?keys)"
    if "\<not> sort_opt p" "list_all (\<lambda>k. k \<notin> set Object_prototype) ?keys"
    using that keys keys_Object_values [OF ok]
    by (simp add: doc finalTranslations_def)
  have noindex: "list_all (\<lambda>k. \<not> is_array_index k) (first_seen ks)"
    if "list_all (\<lambda>k. \<not> is_array_index k) ks" for ks
    using that by (simp add: list_all_iff first_seen_def)
  from sorted unsorted plain noindex show ?thesis by metis
qed

text \<open>
  The theorem at two files with the keys \<open>b\<close>, \<open>10\<close> and \<open>9\<close>, \<open>a\<close>, sorted and
  unsorted, and at the two files with \<open>k1\<close> and \<open>k2\<close>, unsorted.
\<close>

theorem output_order_witness:
  "sorted_wrt (\<lambda>a b. codeUnitCompare a b \<le> 0) [''10'', ''9'', ''a'', ''b''] \<and>
   map key (translations \<lparr>language = ''EN'', translations =
       [entry ''10'' ''Ten'' None, entry ''9'' ''Nine'' None, entry ''a'' ''Ay'' None,
        entry ''b'' ''Bee'' None]\<rparr>) = [''10'', ''9'', ''a'', ''b''] \<and>
   snd (main (example_env number_files)
          (example_program False True True [''n.json'', ''m.json''])) =
     Inr \<lparr>language = ''EN'', translations =
       [entry ''10'' ''Ten'' None, entry ''9'' ''Nine'' None, entry ''a'' ''Ay'' None,
        entry ''b'' ''Bee'' None]\<rparr> \<and>
   own_keys (first_seen [''b'', ''10'', ''9'', ''a'']) = [''9'', ''10'', ''b'', ''a''] \<and>
   map key (translations \<lparr>language = ''EN'', translations =
       [entry ''9'' ''Nine'' None, entry ''10'' ''Ten'' None, entry ''b'' ''Bee'' None,
        entry ''a'' ''Ay'' None]\<rparr>) = [''9'', ''10'', ''b'', ''a''] \<and>
   snd (main (example_env number_files)
          (example_program False False True [''n.json'', ''m.json''])) =
     Inr \<lparr>language = ''EN'', translations =
       [entry ''9'' ''Nine'' None, entry ''10'' ''Ten'' None, entry ''b'' ''Bee'' None,
        entry ''a'' ''Ay'' None]\<rparr> \<and>
   first_seen [''k1'', ''k2'', ''k1'', ''k2''] = [''k1'', ''k2''] \<and>
   map key (translations \<lparr>language = ''EN'', translations =
       [entry ''k1'' ''Hello'' (Some ''greeting''), entry ''k2'' ''Bye'' None]\<rparr>) =
     [''k1'', ''k2''] \<and>
   snd (main (example_env greeting_files)
          (example_program True False True [''a.json'', ''b.json''])) =
     Inr \<lparr>language = ''EN'', translations =
       [entry ''k1'' ''Hello'' (Some ''greeting''), entry ''k2'' ''Bye'' None]\<rparr>"
proof -
  define e where "e = example_env number_files"
  define g where "g = example_env greeting_files"
  define sorted_doc where "sorted_doc = \<lparr>language = ''EN'', translations =
       [entry ''10'' ''Ten'' None, entry ''9'' ''Nine'' None, entry ''a'' ''Ay'' None,
        entry ''b'' ''Bee'' None]\<rparr>"
  define plain_doc where "plain_doc = \<lparr>language = ''EN'', translations =
       [entry ''9'' ''Nine'' None, entry ''10'' ''Ten'' None, entry ''b'' ''Bee'' None,
        entry ''a'' ''Ay'' None]\<rparr>"
  define greeting_doc where "greeting_doc = \<lparr>language = ''EN'', translations =
       [entry ''k1'' ''Hello'' (Some ''greeting''), entry ''k2'' ''Bye'' None]\<rparr>"
  note defs = e_def g_def sorted_doc_def plain_doc_def greeting_doc_def run_defs
    number_files_def greeting_files_def
  have cmp: "consistent (localeCompare e)"
    by (simp add: e_def example_env_def consistent_codeUnitCompare)
  have fin1: "snd (main e (example_program False True True [''n.json'', ''m.json''])) =
      Inr sorted_doc"
    by (simp add: defs)
  have srt: "sort_opt (example_program False True True [''n.json'', ''m.json''])"
    by (simp add: example_program_def)
  from output_order [OF fin1, THEN conjunct1, rule_format, OF srt cmp]
  have one: "sorted_wrt (\<lambda>a b. codeUnitCompare a b \<le> 0) (map key (translations sorted_doc))"
    by (simp add: e_def example_env_def)
  have fin2: "snd (main e (example_program False False True [''n.json'', ''m.json''])) =
      Inr plain_doc"
    by (simp add: defs)
  have nosort: "\<not> sort_opt (example_program False False True [''n.json'', ''m.json''])"
    by (simp add: example_program_def)
  have keys2: "map key (all_items e (expandGlobPatterns e
      (args (example_program False False True [''n.json'', ''m.json''])))) =
      [''b'', ''10'', ''9'', ''a'']"
    by (simp add: defs all_items_def file_items_def)
  have own2: "list_all (\<lambda>k. k \<notin> set Object_prototype) [''b'', ''10'', ''9'', ''a'']"
    by (simp add: Object_prototype_def)
  from output_order [OF fin2, THEN conjunct2, rule_format, THEN conjunct1] nosort own2
  have two: "map key (translations plain_doc) = own_keys (first_seen [''b'', ''10'', ''9'', ''a''])"
    by (simp add: keys2)
  have fin3: "snd (main g (example_program True False True [''a.json'', ''b.json''])) =
      Inr greeting_doc"
    by (simp add: defs)
  have nosort3: "\<not> sort_opt (example_program True False True [''a.json'', ''b.json''])"
    by (simp add: example_program_def)
  have keys3: "map key (all_items g (expandGlobPatterns g
      (args (example_program True False True [''a.json'', ''b.json''])))) =
      [''k1'', ''k2'', ''k1'', ''k2'']"
    by (simp add: defs all_items_def file_items_def)
  have own3: "list_all (\<lambda>k. k \<notin> set Object_prototype) [''k1'', ''k2'', ''k1'', ''k2'']"
    by (simp add: Object_prototype_def)
  have plain3: "list_all (\<lambda>k. \<not> is_array_index k) [''k1'', ''k2'', ''k1'', ''k2'']"
    by (simp add: is_array_index_def is_digit_def)
  from output_order [OF fin3, THEN conjunct2, rule_format, THEN conjunct2, rule_format]
    nosort3 own3 plain3
  have three: "map key (translations greeting_doc) = first_seen [''k1'', ''k2'', ''k1'', ''k2'']"
    by (simp add: keys3)
  have vals: "map key (translations sorted_doc) = [''10'', ''9'', ''a'', ''b'']"
    "map key (translations plain_doc) = [''9'', ''10'', ''b'', ''a'']"
    "map key (translations greeting_doc) = [''k1'', ''k2'']"
    by (simp_all add: sorted_doc_def plain_doc_def greeting_doc_def entry_def)
  from one two three vals fin1 fin2 fin3 show ?thesis
    unfolding e_def g_def sorted_doc_def plain_doc_def greeting_doc_def by simp
qed

text \<open>
  The claim as stated has the unsorted output in first-seen order for all keys. The keys
  \<open>b\<close>, \<open>10\<close>, \<open>9\<close>, \<open>a\<close> are first seen in this order, and \<open>Object.values\<close>
  returns them as \<open>9\<close>, \<open>10\<close>, \<open>b\<close>, \<open>a\<close>.
\<close>

theorem first_seen_order_counterexample:
  "first_seen (map key (all_items (example_env number_files) [''n.json'', ''m.json''])) =
     [''b'', ''10'', ''9'', ''a''] \<and>
   map key (translations \<lparr>language = ''EN'', translations =
       [entry ''9'' ''Nine'' None, entry ''10'' ''Ten'' None, entry ''b'' ''Bee'' None,
        entry ''a'' ''Ay'' None]\<rparr>) = [''9'', ''10'', ''b'', ''a''] \<and>
   main (example_env number_files) (example_program False False True [''n.json'', ''m.json'']) =
     ([], Inr \<lparr>language = ''EN'', translations =
       [entry ''9'' ''Nine'' None, entry ''10'' ''Ten'' None, entry ''b'' ''Bee'' None,
        entry ''a'' ''Ay'' None]\<rparr>)"
  by (simp add: run_defs number_files_def all_items_def file_items_def first_seen_def)

section \<open>One entry for each key\<close>

text \<open>
  In a completed run no two output entries have the same key, and every key of the input
  that is not a property name of \<open>Object.prototype\<close> has exactly one output entry.
\<close>

lemma one_entry_per_key:
  assumes "snd (main e p) = Inr doc"
  shows "distinct (map key (translations doc)) \<and>
    list_all
      (\<lambda>k. k \<in> set Object_prototype \<or> length (filter (\<lambda>t. key t = k) (translations doc)) = 1)
      (map key (all_items e (expandGlobPatterns e (args p))))"
proof -
  from main_Inr [OF assms] obtain out s where
    run: "main_paths e p (expandGlobPatterns e (args p)) [] = (out, Inr s)" and
    doc: "doc = \<lparr>language = ''EN'', translations = finalTranslations e p s\<rparr>"
    by blast
  have ok: "own_ok s" by (rule main_paths_own_ok [OF run own_ok_Nil])
  have "length (filter (\<lambda>t. key t = k) (translations doc)) = 1"
    if "k \<in> set (map key (all_items e (expandGlobPatterns e (args p))))"
      "k \<notin> set Object_prototype" for k
  proof -
    from main_paths_keys [OF run] that have "k \<in> set (map fst s)"
      by (simp add: set_foldl_Set_add)
    then obtain x where "map_of s k = Some x"
      by (metis map_of_eq_None_iff not_Some_eq set_map)
    from final_entry [OF ok this, of e p] show ?thesis by (simp add: doc)
  qed
  then show ?thesis
    using distinct_finalTranslations [OF ok, of e p] by (auto simp: doc list_all_iff)
qed

text \<open>
  Claim C4. The claim has exactly one output entry for the key of any two equal input
  entries. \<open>allItems\<close> is a plain object, so \<open>allItems[key]\<close> for the key
  \<open>constructor\<close> is the inherited \<open>Object.prototype.constructor\<close>: the first entry
  with this key is taken for a duplicate with the value \<open>undefined\<close> and is never
  stored. The lenient run on one file with two equal entries for \<open>constructor\<close>
  completes with no entry for that key.
\<close>

theorem inherited_key_dropped:
  "main (example_env inherited_files) (example_program True True True [''one.json'']) =
     ([''Warning: Found duplicate keys with different values:\<newline>Key: constructor\<newline>Value 1: undefined\<newline>Value 2: Builder (in file one.json)'',
       ''Warning: Found duplicate keys with different values:\<newline>Key: constructor\<newline>Value 1: undefined\<newline>Value 2: Builder (in file one.json)''],
      Inr \<lparr>language = ''EN'', translations = []\<rparr>)"
  by (simp add: run_defs inherited_files_def)

section \<open>Files with disjoint keys\<close>

text \<open>
  When no key occurs twice in the input and no key is a property name of
  \<open>Object.prototype\<close>, a completed run returns the entries of the input, each once.
\<close>

lemma main_items_fresh:
  assumes "distinct (map fst s @ map key items)"
    and "list_all (\<lambda>k. k \<notin> set Object_prototype) (map key items)"
  shows "main_items p path items s = ([], Inr (s @ map (\<lambda>i. (key i, i)) items))"
  using assms
proof (induction items arbitrary: s)
  case Nil
  then show ?case by simp
next
  case (Cons item items)
  from Cons.prems have "get s (key item) = Missing"
    by (auto simp: get_Missing_iff map_of_eq_None_iff)
  then have step: "main_item p path item s = ([], Inr (s @ [(key item, item)]))"
    by (rule main_item_Missing)
  from Cons.prems have "distinct (map fst (s @ [(key item, item)]) @ map key items)"
    "list_all (\<lambda>k. k \<notin> set Object_prototype) (map key items)"
    by auto
  from Cons.IH [OF this] step show ?case by simp
qed

lemma main_paths_fresh:
  assumes "main_paths e p paths s = (out, Inr s')"
    and "distinct (map fst s @ map key (all_items e paths))"
    and "list_all (\<lambda>k. k \<notin> set Object_prototype) (map key (all_items e paths))"
  shows "s' = s @ map (\<lambda>i. (key i, i)) (all_items e paths)"
  using assms
proof (induction paths arbitrary: s out)
  case Nil
  then show ?case by (simp add: all_items_def)
next
  case (Cons path paths)
  from Cons.prems(1) obtain o1 s1 o2 where
    step: "main_path e p path s = (o1, Inr s1)" and
    rest: "main_paths e p paths s1 = (o2, Inr s')"
    by (auto split: prod.splits sum.splits)
  from main_path_Inr [OF step] obtain items out1 out2 parsed where
    load: "loadAndParse e path (ignoreErrors p) = (out1, Inr parsed)"
      "iterate (translations_of parsed) = Inr items" and
    items: "main_items p path items s = (out2, Inr s1)"
    by blast
  have fi: "file_items e path = items"
    by (rule loadAndParse_file_items [OF load])
  have all: "all_items e (path # paths) = items @ all_items e paths"
    by (simp add: all_items_def fi)
  from Cons.prems(2,3) have "distinct (map fst s @ map key items)"
    "list_all (\<lambda>k. k \<notin> set Object_prototype) (map key items)"
    by (auto simp: all)
  from main_items_fresh [OF this, of p path] items
  have s1: "s1 = s @ map (\<lambda>i. (key i, i)) items" by simp
  from Cons.prems(2,3) have "distinct (map fst s1 @ map key (all_items e paths))"
    "list_all (\<lambda>k. k \<notin> set Object_prototype) (map key (all_items e paths))"
    by (auto simp: all s1 comp_def)
  from Cons.IH [OF rest this] show ?case
    by (simp add: s1 all)
qed

lemma disjoint_union_unless_inherited:
  assumes "snd (main e p) = Inr doc"
    and "distinct (map key (all_items e (expandGlobPatterns e (args p))))"
    and "list_all (\<lambda>k. k \<notin> set Object_prototype)
      (map key (all_items e (expandGlobPatterns e (args p))))"
  shows "mset (translations doc) = mset (all_items e (expandGlobPatterns e (args p))) \<and>
    length (translations doc) = length (all_items e (expandGlobPatterns e (args p)))"
proof -
  from main_Inr [OF assms(1)] obtain out s where
    run: "main_paths e p (expandGlobPatterns e (args p)) [] = (out, Inr s)" and
    doc: "doc = \<lparr>language = ''EN'', translations = finalTranslations e p s\<rparr>"
    by blast
  from main_paths_fresh [OF run] assms(2,3)
  have "s = map (\<lambda>i. (key i, i)) (all_items e (expandGlobPatterns e (args p)))"
    by simp
  then have "map snd s = all_items e (expandGlobPatterns e (args p))"
    by (simp add: comp_def)
  with mset_finalTranslations [of e p s]
  have m: "mset (translations doc) = mset (all_items e (expandGlobPatterns e (args p)))"
    by (simp add: doc)
  from m mset_eq_length [OF m] show ?thesis by simp
qed

text \<open>
  Claim C7. The claim has no entry lost for files with disjoint keys. The files
  \<open>two.json\<close> (key \<open>k1\<close>) and \<open>three.json\<close> (key \<open>toString\<close>) have disjoint keys;
  the strict run rejects with a conflict for \<open>toString\<close>, whose first value is printed
  as \<open>undefined\<close>, and the lenient run returns one entry for two.
\<close>

theorem inherited_key_lost_from_union:
  "main (example_env inherited_files)
     (example_program False True True [''two.json'', ''three.json'']) =
     ([], Inl (Error ''Found duplicate keys with different values:\<newline>Key: toString\<newline>Value 1: undefined\<newline>Value 2: To text (in file three.json)'')) \<and>
   main (example_env inherited_files)
     (example_program True True True [''two.json'', ''three.json'']) =
     ([''Warning: Found duplicate keys with different values:\<newline>Key: toString\<newline>Value 1: undefined\<newline>Value 2: To text (in file three.json)''],
      Inr \<lparr>language = ''EN'', translations = [entry ''k1'' ''Hello'' (Some '''')]\<rparr>) \<and>
   all_items (example_env inherited_files) [''two.json'', ''three.json''] =
     [entry ''k1'' ''Hello'' (Some ''''), entry ''toString'' ''To text'' (Some '''')]"
  by (simp add: run_defs inherited_files_def all_items_def file_items_def)

section \<open>Items without a context\<close>

lemma defaulted_simps:
  "key (defaulted x) = key x" "value (defaulted x) = value x"
  "truthy (context (defaulted x)) = truthy (context x)"
  by (simp_all add: defaulted_def truthy_def split: option.splits)

lemma defaulted_truthy: "truthy (context x) \<Longrightarrow> context (defaulted x) = context x"
  by (simp add: defaulted_def truthy_def split: option.splits)

lemma defaulted_update:
  "truthy c \<Longrightarrow> defaulted (x\<lparr>context := c\<rparr>) = (defaulted x)\<lparr>context := c\<rparr>"
  by (simp add: defaulted_def truthy_def split: option.splits)

lemma map_of_default_stored: "map_of (default_stored s) k = map_option defaulted (map_of s k)"
  by (simp add: default_stored_def map_of_map)

lemma get_default_stored:
  "get (default_stored s) k =
     (case get s k of Own x \<Rightarrow> Own (defaulted x) | Missing \<Rightarrow> Missing | Inherited \<Rightarrow> Inherited)"
  by (simp add: get_def map_of_default_stored split: option.splits)

lemma update_default_stored:
  "AList.update k (defaulted x) (default_stored s) = default_stored (AList.update k x s)"
  by (induction s) (auto simp: default_stored_def)

lemma main_item_defaulted:
  "main_item p path (defaulted item) (default_stored s) =
     (case main_item p path item s of (out, r) \<Rightarrow> (out, map_sum id default_stored r))"
proof (cases "get s (key item)")
  case Missing
  then show ?thesis
    by (simp add: main_item_def get_default_stored defaulted_simps update_default_stored)
next
  case (Own x)
  show ?thesis
  proof (cases "truthy (context item)")
    case True
    then show ?thesis using Own
      by (simp add: main_item_def get_default_stored defaulted_simps defaulted_truthy
          conflict_def update_default_stored [symmetric] defaulted_update)
  next
    case False
    then show ?thesis using Own
      by (simp add: main_item_def get_default_stored defaulted_simps conflict_def)
  qed
next
  case Inherited
  then show ?thesis
    by (simp add: main_item_def get_default_stored defaulted_simps conflict_def)
qed

lemma main_items_defaulted:
  "main_items p path (map defaulted items) (default_stored s) =
     (case main_items p path items s of (out, r) \<Rightarrow> (out, map_sum id default_stored r))"
proof (induction items arbitrary: s)
  case Nil
  then show ?case by simp
next
  case (Cons item items)
  show ?case
    by (simp add: main_item_defaulted Cons.IH split: prod.splits sum.splits)
qed

lemma truthy_default_value: "truthy_value (default_value t) = truthy_value t"
  by (cases t) simp_all

lemma iterate_default_value:
  "iterate (default_value t) = map_sum id (map defaulted) (iterate t)"
  by (cases t) simp_all

lemma loadAndParse_defaulted:
  "loadAndParse (default_contexts e) path ignore =
     (case loadAndParse e path ignore of
        (out, r) \<Rightarrow> (out, map_sum id (map_option default_parsed) r))"
  by (simp add: loadAndParse_def default_contexts_def Let_def split: sum.splits)

lemma translations_of_defaulted:
  "translations_of (map_option default_parsed parsed) = default_value (translations_of parsed)"
proof (cases parsed)
  case None
  then show ?thesis by (simp add: translations_of_def)
next
  case (Some v)
  then show ?thesis
    by (cases v) (simp_all add: translations_of_def truthy_default_value)
qed

lemma main_path_defaulted:
  "main_path (default_contexts e) p path (default_stored s) =
     (case main_path e p path s of (out, r) \<Rightarrow> (out, map_sum id default_stored r))"
  by (simp add: main_path_def loadAndParse_defaulted translations_of_defaulted
      iterate_default_value main_items_defaulted split: prod.splits sum.splits)

lemma main_paths_defaulted:
  "main_paths (default_contexts e) p paths (default_stored s) =
     (case main_paths e p paths s of (out, r) \<Rightarrow> (out, map_sum id default_stored r))"
proof (induction paths arbitrary: s)
  case Nil
  then show ?case by simp
next
  case (Cons path paths)
  show ?case
    by (simp add: main_path_defaulted Cons.IH split: prod.splits sum.splits)
qed

lemma insort_key_default_stored:
  "insort_key (\<lambda>p. f (fst p)) (k, defaulted x) (default_stored s) =
   default_stored (insort_key (\<lambda>p. f (fst p)) (k, x) s)"
  by (induction s) (auto simp: default_stored_def)

lemma sort_key_default_stored:
  "sort_key (\<lambda>p. f (fst p)) (default_stored s) = default_stored (sort_key (\<lambda>p. f (fst p)) s)"
proof (induction s)
  case Nil
  then show ?case by (simp add: default_stored_def)
next
  case (Cons kv s)
  obtain k x where kv: "kv = (k, x)" by (cases kv)
  have "default_stored (kv # s) = (k, defaulted x) # default_stored s"
    by (simp add: default_stored_def kv)
  then show ?case
    using Cons by (simp add: insort_key_default_stored kv)
qed

lemma filter_default_stored:
  "filter (\<lambda>p. P (fst p)) (default_stored s) = default_stored (filter (\<lambda>p. P (fst p)) s)"
  by (induction s) (auto simp: default_stored_def)

lemma Object_values_defaulted:
  "Object_values (default_stored s) = map defaulted (Object_values s)"
proof -
  have snd: "\<And>s. map snd (default_stored s) = map defaulted (map snd s)"
    by (simp add: default_stored_def comp_def case_prod_unfold)
  have app: "\<And>s t. default_stored s @ default_stored t = default_stored (s @ t)"
    by (simp add: default_stored_def)
  have f1: "filter (\<lambda>p. is_array_index (fst p)) (default_stored s) =
      default_stored (filter (\<lambda>p. is_array_index (fst p)) s)"
    by (rule filter_default_stored)
  have f2: "filter (\<lambda>p. \<not> is_array_index (fst p)) (default_stored s) =
      default_stored (filter (\<lambda>p. \<not> is_array_index (fst p)) s)"
    by (rule filter_default_stored [of "\<lambda>k. \<not> is_array_index k"])
  show ?thesis
    unfolding Object_values_def f1 f2 sort_key_default_stored app snd ..
qed

lemma insort_by_defaulted:
  "insort_by cmp (defaulted a) (map defaulted bs) = map defaulted (insort_by cmp a bs)"
  by (induction bs) (simp_all add: defaulted_simps)

lemma sortTranslations_defaulted:
  "sortTranslations (default_contexts e) (map defaulted ts) =
   map defaulted (sortTranslations e ts)"
proof -
  have cmp: "localeCompare (default_contexts e) = localeCompare e"
    by (simp add: default_contexts_def)
  show ?thesis
    by (induction ts) (simp_all add: sortTranslations_def cmp insort_by_defaulted)
qed

lemma finalTranslations_defaulted:
  "finalTranslations (default_contexts e) p (default_stored s) =
   map defaulted (finalTranslations e p s)"
  by (simp add: finalTranslations_def Object_values_defaulted sortTranslations_defaulted)

lemma main_defaulted:
  "main (default_contexts e) p =
     (fst (main e p),
      map_sum id (\<lambda>doc. doc\<lparr>translations := map defaulted (translations doc)\<rparr>)
        (snd (main e p)))"
proof -
  have paths: "expandGlobPatterns (default_contexts e) (args p) = expandGlobPatterns e (args p)"
    by (simp add: expandGlobPatterns_def default_contexts_def)
  have start: "default_stored [] = []" by (simp add: default_stored_def)
  from main_paths_defaulted [of e p "expandGlobPatterns e (args p)" "[]"]
  show ?thesis
    by (auto simp: main_def paths start finalTranslations_defaulted
        split: prod.splits sum.splits)
qed

text \<open>
  Claim C8, as the code has it. Giving every item without a context the empty context
  changes neither what a run writes to \<open>stderr\<close> nor the error it rejects with, and
  changes the output only in that the same entries, in the same order, have their
  contexts defaulted: the merge treats a missing context as an empty one, in every run.
  The output is not defaulted: a first-seen item without a context has, when the run
  completes, one output entry, which has no context either, unless \<open>mergeContext\<close>
  pulled in a non-empty one.
\<close>

theorem missing_context_as_empty:
  "main (default_contexts e) p =
     (fst (main e p),
      case snd (main e p) of
        Inl err \<Rightarrow> Inl err
      | Inr doc \<Rightarrow> Inr (doc\<lparr>translations := map defaulted (translations doc)\<rparr>)) \<and>
   (expandGlobPatterns e (args p) = ps1 @ path # ps2 \<and>
    main_paths e p ps1 [] = (out1, Inr s1) \<and>
    readFile e path = Inr buffer \<and>
    JSON_parse e buffer = Inr (JSON_object (Array (is1 @ item # is2))) \<and>
    main_items p path is1 s1 = (out2, Inr s) \<and>
    get s (key item) = Missing \<and>
    context item = None \<and>
    snd (main e p) = Inr doc \<longrightarrow>
    (\<exists>x'. filter (\<lambda>t. key t = key item) (translations doc) = [x'] \<and>
       value x' = value item \<and>
       (context x' = None \<or> mergeContext p \<and> truthy (context x'))))"
proof (intro conjI impI; (elim conjE)?)
  show "main (default_contexts e) p =
     (fst (main e p),
      case snd (main e p) of
        Inl err \<Rightarrow> Inl err
      | Inr doc \<Rightarrow> Inr (doc\<lparr>translations := map defaulted (translations doc)\<rparr>))"
    by (simp add: main_defaulted split: sum.splits)
  assume paths: "expandGlobPatterns e (args p) = ps1 @ path # ps2"
    and before: "main_paths e p ps1 [] = (out1, Inr s1)"
    and rd: "readFile e path = Inr buffer"
    and parse: "JSON_parse e buffer = Inr (JSON_object (Array (is1 @ item # is2)))"
    and within: "main_items p path is1 s1 = (out2, Inr s)"
    and fresh: "get s (key item) = Missing"
    and missing: "context item = None"
    and fin: "snd (main e p) = Inr doc"
  have step: "main_item p path item s = ([], Inr (s @ [(key item, item)]))"
    by (rule main_item_Missing [OF fresh])
  with within have within':
    "main_items p path (is1 @ [item]) s1 = (out2, Inr (s @ [(key item, item)]))"
    by (simp add: main_items_append)
  have parse': "JSON_parse e buffer = Inr (JSON_object (Array ((is1 @ [item]) @ is2)))"
    using parse by simp
  from fresh have "map_of s (key item) = None" by (simp add: get_Missing_iff)
  then have stored: "map_of (s @ [(key item, item)]) (key item) = Some item"
    by (simp add: map_add_def)
  from reached_entry_final [OF paths before rd parse' within' stored fin]
  show "\<exists>x'. filter (\<lambda>t. key t = key item) (translations doc) = [x'] \<and>
      value x' = value item \<and> (context x' = None \<or> mergeContext p \<and> truthy (context x'))"
    using missing by (auto simp: kept_def)
qed

text \<open>
  The theorem at the item \<open>k2\<close> of \<open>a.json\<close>, which has no context and is output
  without one, in the lenient run that completes and in the strict run that rejects at
  \<open>b.json\<close>.
\<close>

theorem missing_context_as_empty_witness:
  "main (default_contexts (example_env greeting_files))
     (example_program True False True [''a.json'', ''b.json'']) =
     ([''Pulled context from duplicate entry into k1: greeting'',
       ''Warning: Found duplicate keys with different values:\<newline>Key: k2\<newline>Value 1: Bye\<newline>Value 2: Adieu (in file b.json)''],
      Inr \<lparr>language = ''EN'', translations =
        [entry ''k1'' ''Hello'' (Some ''greeting''), entry ''k2'' ''Bye'' (Some '''')]\<rparr>) \<and>
   main (example_env greeting_files) (example_program True False True [''a.json'', ''b.json'']) =
     ([''Pulled context from duplicate entry into k1: greeting'',
       ''Warning: Found duplicate keys with different values:\<newline>Key: k2\<newline>Value 1: Bye\<newline>Value 2: Adieu (in file b.json)''],
      Inr \<lparr>language = ''EN'', translations =
        [entry ''k1'' ''Hello'' (Some ''greeting''), entry ''k2'' ''Bye'' None]\<rparr>) \<and>
   (\<exists>x'. filter (\<lambda>t. key t = ''k2'')
          [entry ''k1'' ''Hello'' (Some ''greeting''), entry ''k2'' ''Bye'' None] = [x'] \<and>
        value x' = ''Bye'' \<and> context x' = None) \<and>
   main (default_contexts (example_env greeting_files))
     (example_program False False True [''a.json'', ''b.json'']) =
     ([''Pulled context from duplicate entry into k1: greeting''],
      Inl (Error ''Found duplicate keys with different values:\<newline>Key: k2\<newline>Value 1: Bye\<newline>Value 2: Adieu (in file b.json)'')) \<and>
   main (example_env greeting_files) (example_program False False True [''a.json'', ''b.json'']) =
     ([''Pulled context from duplicate entry into k1: greeting''],
      Inl (Error ''Found duplicate keys with different values:\<newline>Key: k2\<newline>Value 1: Bye\<newline>Value 2: Adieu (in file b.json)''))"
proof -
  define e where "e = example_env greeting_files"
  define p where "p = example_program True False True [''a.json'', ''b.json'']"
  define q where "q = example_program False False True [''a.json'', ''b.json'']"
  define x1 where "x1 = entry ''k1'' ''Hello'' (Some '''')"
  define x2 where "x2 = entry ''k2'' ''Bye'' None"
  define y1 where "y1 = entry ''k1'' ''Hello'' (Some ''greeting'')"
  define out where "out = [''Pulled context from duplicate entry into k1: greeting'',
       ''Warning: Found duplicate keys with different values:\<newline>Key: k2\<newline>Value 1: Bye\<newline>Value 2: Adieu (in file b.json)'']"
  define err where "err = Error ''Found duplicate keys with different values:\<newline>Key: k2\<newline>Value 1: Bye\<newline>Value 2: Adieu (in file b.json)''"
  note defs = e_def p_def q_def x1_def x2_def y1_def out_def err_def run_defs greeting_files_def
  have paths: "expandGlobPatterns e (args p) = [] @ ''a.json'' # [''b.json'']"
    by (simp add: defs)
  have before: "main_paths e p [] [] = ([], Inr [])"
    by simp
  have rd: "readFile e ''a.json'' = Inr ''a.json''"
    by (simp add: defs)
  have parse: "JSON_parse e ''a.json'' = Inr (JSON_object (Array ([x1] @ x2 # [])))"
    by (simp add: defs)
  have within: "main_items p ''a.json'' [x1] [] = ([], Inr [(''k1'', x1)])"
    by (simp add: defs)
  have fresh: "get [(''k1'', x1)] (key x2) = Missing"
    by (simp add: defs)
  have missing: "context x2 = None"
    by (simp add: defs)
  have run: "main e p = (out, Inr \<lparr>language = ''EN'', translations = [y1, x2]\<rparr>)"
    by (simp add: defs)
  then have fin: "snd (main e p) = Inr \<lparr>language = ''EN'', translations = [y1, x2]\<rparr>"
    by simp
  have strict: "main e q = ([''Pulled context from duplicate entry into k1: greeting''], Inl err)"
    by (simp add: defs)
  from paths before rd parse within fresh missing fin
  have reached: "expandGlobPatterns e (args p) = [] @ ''a.json'' # [''b.json''] \<and>
      main_paths e p [] [] = ([], Inr []) \<and>
      readFile e ''a.json'' = Inr ''a.json'' \<and>
      JSON_parse e ''a.json'' = Inr (JSON_object (Array ([x1] @ x2 # []))) \<and>
      main_items p ''a.json'' [x1] [] = ([], Inr [(''k1'', x1)]) \<and>
      get [(''k1'', x1)] (key x2) = Missing \<and>
      context x2 = None \<and>
      snd (main e p) = Inr \<lparr>language = ''EN'', translations = [y1, x2]\<rparr>"
    by (intro conjI)
  from missing_context_as_empty [of e p, THEN conjunct1]
  have a: "main (default_contexts e) p =
      (out, Inr \<lparr>language = ''EN'', translations =
        [entry ''k1'' ''Hello'' (Some ''greeting''), entry ''k2'' ''Bye'' (Some '''')]\<rparr>)"
    by (simp add: run x2_def y1_def entry_def defaulted_def)
  from missing_context_as_empty [THEN conjunct2, THEN mp, OF reached]
  have b: "\<exists>x'. filter (\<lambda>t. key t = ''k2'') [y1, x2] = [x'] \<and>
        value x' = ''Bye'' \<and> context x' = None"
    by (auto simp: x2_def y1_def entry_def truthy_def)
  from missing_context_as_empty [of e q, THEN conjunct1]
  have c: "main (default_contexts e) q =
      ([''Pulled context from duplicate entry into k1: greeting''], Inl err)"
    by (simp add: strict)
  from a b c run strict show ?thesis
    unfolding e_def p_def q_def out_def err_def y1_def x2_def by simp
qed

text \<open>
  The claim as stated has the entry output with the empty string as its context. The
  entry \<open>k2\<close> of \<open>a.json\<close> is output as it was read: \<open>JSON.stringify\<close> prints no
  \<open>context\<close> for it.
\<close>

theorem missing_context_counterexample:
  "main (example_env greeting_files) (example_program False True True [''a.json'']) =
     ([], Inr \<lparr>language = ''EN'', translations =
        [entry ''k1'' ''Hello'' (Some ''''), entry ''k2'' ''Bye'' None]\<rparr>) \<and>
   map context [entry ''k1'' ''Hello'' (Some ''''), entry ''k2'' ''Bye'' None] =
     [Some '''', None] \<and>
   file_items (example_env greeting_files) ''a.json'' =
     [entry ''k1'' ''Hello'' (Some ''''), entry ''k2'' ''Bye'' None]"
  by (simp add: run_defs greeting_files_def file_items_def)

end
